theory Spec2Isabelle
  imports Main "HOL-Library.Word"
begin

section \<open>The relational store\<close>

text \<open>
  The schema and the seed data are SQL scripts. Their meaning is given by a small
  executable engine: a database maps table names to tables, a table keeps its definition,
  its rows in insertion order and the next \<open>AUTO_INCREMENT\<close> value. A statement is atomic:
  it either returns the new database or an error, and then the database is as before.
  The clock \<open>now\<close> that a statement reads for \<open>CURRENT_TIMESTAMP\<close> is an argument.
  Literals are taken as already typed (a quoted literal is \<open>VStr\<close>, an integer literal
  \<open>VInt\<close>, a literal with a decimal point \<open>VDec mantissa scale\<close>); the engine is strict,
  a value that does not fit its column is refused rather than truncated. Values are
  compared by equality.
\<close>

datatype val = VNull | VInt int | VStr string | VDec int nat | VTime nat

datatype coltype =
    TInt
  | TVarchar nat
  | TText
  | TDate
  | TDecimal nat nat
  | TYear
  | TEnum "string list"
  | TTimestamp

datatype col_attr =
    PrimaryKey
  | AutoIncrement
  | Unique
  | NotNull
  | Nullable
  | Default val
  | DefaultCurrentTimestamp

datatype column = Column (col_name: string) (col_type: coltype) (col_attrs: "col_attr list")

datatype fkey = ForeignKey (fk_col: string) (fk_table: string) (fk_ref: string)

datatype table_def = TableDef (td_name: string) (td_cols: "column list") (td_fks: "fkey list")

type_synonym row = "(string \<times> val) list"

record table =
  t_def :: table_def
  t_rows :: "row list"
  t_auto :: int

type_synonym db = "string \<Rightarrow> table option"

datatype sql_error =
    NoSuchTable string
  | UnknownColumn string
  | ColumnTwice string
  | ColumnCount
  | NoDefaultValue string
  | NullViolation string
  | BadValue string
  | OutOfRange string
  | DuplicateEntry string string val
  | FkViolation string string val
  | BadTableDef string

datatype stmt =
    CreateTableIfNotExists table_def
  | InsertInto string "string list" "val list list"

definition empty_db :: db where
  "empty_db = (\<lambda>_. None)"

definition is_key :: "column \<Rightarrow> bool" where
  "is_key c = (PrimaryKey \<in> set (col_attrs c) \<or> Unique \<in> set (col_attrs c))"

definition is_notnull :: "column \<Rightarrow> bool" where
  "is_notnull c = (PrimaryKey \<in> set (col_attrs c) \<or> NotNull \<in> set (col_attrs c))"

definition is_autoinc :: "column \<Rightarrow> bool" where
  "is_autoinc c = (AutoIncrement \<in> set (col_attrs c))"

fun attr_default :: "nat \<Rightarrow> col_attr list \<Rightarrow> val option" where
  "attr_default now [] = None"
| "attr_default now (Default v # as) = Some v"
| "attr_default now (DefaultCurrentTimestamp # as) = Some (VTime now)"
| "attr_default now (a # as) = attr_default now as"

definition row_val :: "row \<Rightarrow> string \<Rightarrow> val" where
  "row_val r c = (case map_of r c of Some v \<Rightarrow> v | None \<Rightarrow> VNull)"

definition col_vals :: "table \<Rightarrow> string \<Rightarrow> val list" where
  "col_vals t c = map (\<lambda>r. row_val r c) (t_rows t)"

subsection \<open>Column types\<close>

definition digit_of :: "char \<Rightarrow> nat option" where
  "digit_of c = (let n = (of_char c :: nat) in if 48 \<le> n \<and> n \<le> 57 then Some (n - 48) else None)"

fun number_of :: "string \<Rightarrow> nat option" where
  "number_of [] = Some 0"
| "number_of (c # cs) =
     (case digit_of c of
        None \<Rightarrow> None
      | Some d \<Rightarrow> (case number_of cs of None \<Rightarrow> None | Some n \<Rightarrow> Some (d * 10 ^ length cs + n)))"

definition leap_year :: "nat \<Rightarrow> bool" where
  "leap_year y = (y mod 4 = 0 \<and> (y mod 100 \<noteq> 0 \<or> y mod 400 = 0))"

definition days_in_month :: "nat \<Rightarrow> nat \<Rightarrow> nat" where
  "days_in_month y m =
     (if m = 2 then (if leap_year y then 29 else 28)
      else if m = 4 \<or> m = 6 \<or> m = 9 \<or> m = 11 then 30 else 31)"

definition valid_date :: "string \<Rightarrow> bool" where
  "valid_date s =
     (length s = 10 \<and> s ! 4 = CHR ''-'' \<and> s ! 7 = CHR ''-'' \<and>
      (case (number_of (take 4 s), number_of (take 2 (drop 5 s)), number_of (drop 8 s)) of
         (Some y, Some m, Some d) \<Rightarrow>
           1000 \<le> y \<and> 1 \<le> m \<and> m \<le> 12 \<and> 1 \<le> d \<and> d \<le> days_in_month y m
       | _ \<Rightarrow> False))"

definition rescale :: "int \<Rightarrow> nat \<Rightarrow> nat \<Rightarrow> int" where
  "rescale m sc s =
     (if sc \<le> s then m * 10 ^ (s - sc)
      else sgn m * ((\<bar>m\<bar> + 10 ^ (sc - s) div 2) div 10 ^ (sc - s)))"

fun coerce :: "coltype \<Rightarrow> val \<Rightarrow> val option" where
  "coerce TInt v =
     (case v of
        VInt i \<Rightarrow> if - 2147483648 \<le> i \<and> i \<le> 2147483647 then Some (VInt i) else None
      | _ \<Rightarrow> None)"
| "coerce (TVarchar n) v =
     (case v of VStr s \<Rightarrow> if length s \<le> n then Some (VStr s) else None | _ \<Rightarrow> None)"
| "coerce TText v =
     (case v of VStr s \<Rightarrow> if length s \<le> 65535 then Some (VStr s) else None | _ \<Rightarrow> None)"
| "coerce TDate v =
     (case v of VStr s \<Rightarrow> if valid_date s then Some (VStr s) else None | _ \<Rightarrow> None)"
| "coerce (TDecimal p s) v =
     (case v of
        VDec m sc \<Rightarrow>
          if \<bar>rescale m sc s\<bar> < 10 ^ p then Some (VDec (rescale m sc s) s) else None
      | VInt i \<Rightarrow> if \<bar>i\<bar> * 10 ^ s < 10 ^ p then Some (VDec (i * 10 ^ s) s) else None
      | _ \<Rightarrow> None)"
| "coerce TYear v =
     (case v of
        VInt y \<Rightarrow> if y = 0 \<or> (1901 \<le> y \<and> y \<le> 2155) then Some (VInt y) else None
      | _ \<Rightarrow> None)"
| "coerce (TEnum vs) v =
     (case v of VStr s \<Rightarrow> if s \<in> set vs then Some (VStr s) else None | _ \<Rightarrow> None)"
| "coerce TTimestamp v = (case v of VTime t \<Rightarrow> Some (VTime t) | _ \<Rightarrow> None)"

subsection \<open>INSERT\<close>

text \<open>
  The value a column gets in a new row: the next counter value for an
  \<open>AUTO_INCREMENT\<close> column that is given nothing, \<open>NULL\<close> or \<open>0\<close>; otherwise the supplied
  value, or the declared default when the statement does not name the column.
\<close>

definition column_value ::
  "nat \<Rightarrow> (string \<Rightarrow> val option) \<Rightarrow> column \<Rightarrow> int \<Rightarrow> sql_error + (val \<times> int)" where
  "column_value now given c auto =
     (let supplied = given (col_name c) in
      if is_autoinc c \<and> (supplied = None \<or> supplied = Some VNull \<or> supplied = Some (VInt 0))
      then (if auto \<le> 2147483647 then Inr (VInt auto, auto + 1) else Inl (OutOfRange (col_name c)))
      else
        (case (case supplied of Some v \<Rightarrow> Some v | None \<Rightarrow> attr_default now (col_attrs c)) of
           None \<Rightarrow> if is_notnull c then Inl (NoDefaultValue (col_name c)) else Inr (VNull, auto)
         | Some VNull \<Rightarrow> if is_notnull c then Inl (NullViolation (col_name c)) else Inr (VNull, auto)
         | Some v \<Rightarrow>
             (case coerce (col_type c) v of
                None \<Rightarrow> Inl (BadValue (col_name c))
              | Some (VInt i) \<Rightarrow> Inr (VInt i, if is_autoinc c then max auto (i + 1) else auto)
              | Some w \<Rightarrow> Inr (w, auto))))"

fun fill_row ::
  "nat \<Rightarrow> (string \<Rightarrow> val option) \<Rightarrow> column list \<Rightarrow> int \<Rightarrow> sql_error + (row \<times> int)" where
  "fill_row now given [] auto = Inr ([], auto)"
| "fill_row now given (c # cs) auto =
     (case column_value now given c auto of
        Inl e \<Rightarrow> Inl e
      | Inr (v, auto') \<Rightarrow>
          (case fill_row now given cs auto' of
             Inl e \<Rightarrow> Inl e
           | Inr (r, auto'') \<Rightarrow> Inr ((col_name c, v) # r, auto'')))"

definition unique_violation :: "string \<Rightarrow> table \<Rightarrow> row \<Rightarrow> sql_error option" where
  "unique_violation tn t r =
     (case find (\<lambda>c. is_key c \<and> row_val r (col_name c) \<noteq> VNull \<and>
                     row_val r (col_name c) \<in> set (col_vals t (col_name c))) (td_cols (t_def t)) of
        Some c \<Rightarrow> Some (DuplicateEntry tn (col_name c) (row_val r (col_name c)))
      | None \<Rightarrow> None)"

definition fk_holds :: "db \<Rightarrow> row \<Rightarrow> fkey \<Rightarrow> bool" where
  "fk_holds d r fk =
     (row_val r (fk_col fk) = VNull \<or>
      (case d (fk_table fk) of
         None \<Rightarrow> False
       | Some t' \<Rightarrow> row_val r (fk_col fk) \<in> set (col_vals t' (fk_ref fk))))"

definition fk_violation :: "string \<Rightarrow> db \<Rightarrow> row \<Rightarrow> fkey list \<Rightarrow> sql_error option" where
  "fk_violation tn d r fks =
     (case find (\<lambda>fk. \<not> fk_holds d r fk) fks of
        Some fk \<Rightarrow> Some (FkViolation tn (fk_col fk) (row_val r (fk_col fk)))
      | None \<Rightarrow> None)"

definition insert_row ::
  "nat \<Rightarrow> db \<Rightarrow> string \<Rightarrow> table \<Rightarrow> string list \<Rightarrow> val list \<Rightarrow> sql_error + table" where
  "insert_row now d tn t cols vals =
     (if length vals \<noteq> length cols then Inl ColumnCount
      else
        (case fill_row now (map_of (zip cols vals)) (td_cols (t_def t)) (t_auto t) of
           Inl e \<Rightarrow> Inl e
         | Inr (r, auto') \<Rightarrow>
             (case unique_violation tn t r of
                Some e \<Rightarrow> Inl e
              | None \<Rightarrow>
                  (case fk_violation tn (d(tn \<mapsto> t)) r (td_fks (t_def t)) of
                     Some e \<Rightarrow> Inl e
                   | None \<Rightarrow> Inr (t\<lparr>t_rows := t_rows t @ [r], t_auto := auto'\<rparr>)))))"

fun insert_rows ::
  "nat \<Rightarrow> db \<Rightarrow> string \<Rightarrow> table \<Rightarrow> string list \<Rightarrow> val list list \<Rightarrow> sql_error + table" where
  "insert_rows now d tn t cols [] = Inr t"
| "insert_rows now d tn t cols (vals # rest) =
     (case insert_row now d tn t cols vals of
        Inl e \<Rightarrow> Inl e
      | Inr t' \<Rightarrow> insert_rows now d tn t' cols rest)"

definition exec_insert ::
  "nat \<Rightarrow> db \<Rightarrow> string \<Rightarrow> string list \<Rightarrow> val list list \<Rightarrow> sql_error + db" where
  "exec_insert now d tn cols rows =
     (case d tn of
        None \<Rightarrow> Inl (NoSuchTable tn)
      | Some t \<Rightarrow>
          (case find (\<lambda>c. c \<notin> set (map col_name (td_cols (t_def t)))) cols of
             Some c \<Rightarrow> Inl (UnknownColumn c)
           | None \<Rightarrow>
               if \<not> distinct cols then Inl (ColumnTwice (hd (filter (\<lambda>c. 1 < count_list cols c) cols)))
               else
                 (case insert_rows now d tn t cols rows of
                    Inl e \<Rightarrow> Inl e
                  | Inr t' \<Rightarrow> Inr (d(tn \<mapsto> t')))))"

subsection \<open>CREATE TABLE IF NOT EXISTS\<close>

text \<open>
  A definition is accepted when its column names are distinct, its
  \<open>AUTO_INCREMENT\<close> columns are keys, and every foreign key names a column of the table
  and a key column of a table that exists already (or of the table itself).
\<close>

definition new_table :: "table_def \<Rightarrow> table" where
  "new_table td = \<lparr>t_def = td, t_rows = [], t_auto = 1\<rparr>"

definition fk_ok :: "db \<Rightarrow> table_def \<Rightarrow> fkey \<Rightarrow> bool" where
  "fk_ok d td fk =
     (fk_col fk \<in> set (map col_name (td_cols td)) \<and>
      (case (if fk_table fk = td_name td then Some td else map_option t_def (d (fk_table fk))) of
         None \<Rightarrow> False
       | Some rd \<Rightarrow> \<exists>c \<in> set (td_cols rd). col_name c = fk_ref fk \<and> is_key c))"

definition def_ok :: "db \<Rightarrow> table_def \<Rightarrow> bool" where
  "def_ok d td =
     (distinct (map col_name (td_cols td)) \<and>
      (\<forall>c \<in> set (td_cols td). is_autoinc c \<longrightarrow> is_key c) \<and>
      (\<forall>fk \<in> set (td_fks td). fk_ok d td fk))"

definition exec_create :: "db \<Rightarrow> table_def \<Rightarrow> sql_error + db" where
  "exec_create d td =
     (case d (td_name td) of
        Some t \<Rightarrow> Inr d
      | None \<Rightarrow>
          if def_ok d td
          then Inr (d(td_name td \<mapsto> new_table td))
          else Inl (BadTableDef (td_name td)))"

subsection \<open>Statements and scripts\<close>

fun exec :: "nat \<Rightarrow> db \<Rightarrow> stmt \<Rightarrow> sql_error + db" where
  "exec now d (CreateTableIfNotExists td) = exec_create d td"
| "exec now d (InsertInto tn cols rows) = exec_insert now d tn cols rows"

text \<open>
  A script runs its statements in order and stops at the first one that fails; the
  result is the database reached and the error that stopped the script, if any.
\<close>

fun run_script :: "nat \<Rightarrow> db \<Rightarrow> stmt list \<Rightarrow> db \<times> sql_error option" where
  "run_script now d [] = (d, None)"
| "run_script now d (s # ss) =
     (case exec now d s of
        Inl e \<Rightarrow> (d, Some e)
      | Inr d' \<Rightarrow> run_script now d' ss)"

definition row_count :: "db \<Rightarrow> string \<Rightarrow> nat" where
  "row_count d tn = (case d tn of None \<Rightarrow> 0 | Some t \<Rightarrow> length (t_rows t))"

section \<open>The schema script\<close>

definition registration_def :: table_def where
  "registration_def = TableDef ''registration''
     [Column ''id'' TInt [PrimaryKey, AutoIncrement],
      Column ''username'' (TVarchar 50) [Unique, NotNull],
      Column ''password'' (TVarchar 255) [NotNull],
      Column ''email_id'' (TVarchar 100) [Unique, NotNull],
      Column ''mobile_no'' (TVarchar 15) [NotNull],
      Column ''created_at'' TTimestamp [DefaultCurrentTimestamp]]
     []"

definition admission_def :: table_def where
  "admission_def = TableDef ''admission''
     [Column ''admission_id'' TInt [PrimaryKey, AutoIncrement],
      Column ''registration_id'' TInt [],
      Column ''student_name'' (TVarchar 100) [NotNull],
      Column ''course_name'' (TVarchar 100) [NotNull],
      Column ''email_id'' (TVarchar 100) [NotNull],
      Column ''date_of_birth'' TDate [NotNull],
      Column ''father_name'' (TVarchar 100) [NotNull],
      Column ''mother_name'' (TVarchar 100) [NotNull],
      Column ''mobile_no'' (TVarchar 15) [NotNull],
      Column ''aadhar_no'' (TVarchar 12) [Unique, NotNull],
      Column ''address'' TText [NotNull],
      Column ''state'' (TVarchar 50) [NotNull],
      Column ''district'' (TVarchar 50) [NotNull],
      Column ''pincode'' (TVarchar 6) [NotNull],
      Column ''gender'' (TEnum [''Male'', ''Female'', ''Other'']) [NotNull],
      Column ''previous_year_cgpa'' (TDecimal 3 2) [],
      Column ''obtain_marks'' TInt [],
      Column ''total_marks'' TInt [],
      Column ''percentage'' (TDecimal 5 2) [],
      Column ''passing_year'' TYear [],
      Column ''photo_path'' (TVarchar 255) [],
      Column ''id_proof_path'' (TVarchar 255) [],
      Column ''sign_path'' (TVarchar 255) [],
      Column ''previous_year_marklist_path'' (TVarchar 255) [],
      Column ''status'' (TEnum [''Pending'', ''Approved'', ''Rejected'']) [Default (VStr ''Pending'')],
      Column ''created_at'' TTimestamp [DefaultCurrentTimestamp]]
     [ForeignKey ''registration_id'' ''registration'' ''id'']"

definition student_def :: table_def where
  "student_def = TableDef ''student''
     [Column ''student_id'' TInt [PrimaryKey, AutoIncrement],
      Column ''admission_id'' TInt [],
      Column ''student_name'' (TVarchar 100) [NotNull],
      Column ''course_name'' (TVarchar 100) [NotNull],
      Column ''activity_id'' TInt [],
      Column ''created_at'' TTimestamp [DefaultCurrentTimestamp]]
     [ForeignKey ''admission_id'' ''admission'' ''admission_id'']"

definition course_def :: table_def where
  "course_def = TableDef ''course''
     [Column ''course_id'' TInt [PrimaryKey, AutoIncrement],
      Column ''course_name'' (TVarchar 100) [NotNull],
      Column ''course_code'' (TVarchar 20) [Unique, NotNull],
      Column ''duration_years'' TInt [NotNull],
      Column ''created_at'' TTimestamp [DefaultCurrentTimestamp]]
     []"

definition activity_def :: table_def where
  "activity_def = TableDef ''activity''
     [Column ''activity_id'' TInt [PrimaryKey, AutoIncrement],
      Column ''student_id'' TInt [],
      Column ''course_name'' (TVarchar 100) [NotNull],
      Column ''activity_category'' (TVarchar 100) [NotNull],
      Column ''activity_date'' TDate [NotNull],
      Column ''created_at'' TTimestamp [DefaultCurrentTimestamp]]
     [ForeignKey ''student_id'' ''student'' ''student_id'']"

definition exam_def :: table_def where
  "exam_def = TableDef ''exam''
     [Column ''exam_id'' TInt [PrimaryKey, AutoIncrement],
      Column ''exam_type'' (TVarchar 50) [NotNull],
      Column ''exam_fee'' (TDecimal 10 2) [NotNull],
      Column ''created_at'' TTimestamp [DefaultCurrentTimestamp]]
     []"

definition result_def :: table_def where
  "result_def = TableDef ''result''
     [Column ''result_id'' TInt [PrimaryKey, AutoIncrement],
      Column ''student_id'' TInt [],
      Column ''exam_id'' TInt [],
      Column ''course_name'' (TVarchar 100) [NotNull],
      Column ''subject'' (TVarchar 100) [NotNull],
      Column ''obtain_marks'' TInt [NotNull],
      Column ''total_marks'' TInt [NotNull],
      Column ''grade'' (TVarchar 2) [],
      Column ''exam_type'' (TVarchar 50) [],
      Column ''cgpa'' (TDecimal 3 2) [],
      Column ''result_status'' (TEnum [''Pass'', ''Fail'', ''ATKT'']) [NotNull],
      Column ''created_at'' TTimestamp [DefaultCurrentTimestamp]]
     [ForeignKey ''student_id'' ''student'' ''student_id'',
      ForeignKey ''exam_id'' ''exam'' ''exam_id'']"

definition fee_def :: table_def where
  "fee_def = TableDef ''fee''
     [Column ''fee_id'' TInt [PrimaryKey, AutoIncrement],
      Column ''admission_id'' TInt [],
      Column ''student_name'' (TVarchar 100) [NotNull],
      Column ''course_name'' (TVarchar 100) [NotNull],
      Column ''exam_category'' (TVarchar 100) [],
      Column ''amount'' (TDecimal 10 2) [NotNull],
      Column ''payment_method'' (TVarchar 50) [NotNull],
      Column ''payment_status'' (TEnum [''Pending'', ''Paid'', ''Failed'']) [Default (VStr ''Pending'')],
      Column ''payment_date'' TTimestamp [Nullable],
      Column ''created_at'' TTimestamp [DefaultCurrentTimestamp]]
     [ForeignKey ''admission_id'' ''admission'' ''admission_id'']"

definition social_activity_def :: table_def where
  "social_activity_def = TableDef ''social_activity''
     [Column ''activity_id'' TInt [PrimaryKey, AutoIncrement],
      Column ''student_id'' TInt [],
      Column ''course_name'' (TVarchar 100) [NotNull],
      Column ''activity_category'' (TVarchar 100) [NotNull],
      Column ''activity_date'' TDate [NotNull],
      Column ''description'' TText [],
      Column ''created_at'' TTimestamp [DefaultCurrentTimestamp]]
     [ForeignKey ''student_id'' ''student'' ''student_id'']"

definition schema_tables :: "table_def list" where
  "schema_tables =
     [registration_def, admission_def, student_def, course_def, activity_def,
      exam_def, result_def, fee_def, social_activity_def]"

definition schema_script :: "stmt list" where
  "schema_script = map CreateTableIfNotExists schema_tables"

section \<open>The seed script\<close>

definition seed_courses :: stmt where
  "seed_courses = InsertInto ''course'' [''course_name'', ''course_code'', ''duration_years'']
     [[VStr ''Bachelor of Business Administration'', VStr ''BBA'', VInt 3],
      [VStr ''Bachelor of Commerce'', VStr ''BCOM'', VInt 3],
      [VStr ''Bachelor of Science'', VStr ''BSC'', VInt 3],
      [VStr ''Master of Business Administration'', VStr ''MBA'', VInt 2],
      [VStr ''Master of Commerce'', VStr ''MCOM'', VInt 2],
      [VStr ''Master of Science'', VStr ''MSC'', VInt 2],
      [VStr ''Data Science'', VStr ''DS'', VInt 2]]"

definition seed_exams :: stmt where
  "seed_exams = InsertInto ''exam'' [''exam_type'', ''exam_fee'']
     [[VStr ''Semester 1'', VDec 150000 2],
      [VStr ''Semester 2'', VDec 150000 2],
      [VStr ''Semester 3'', VDec 150000 2],
      [VStr ''Semester 4'', VDec 150000 2],
      [VStr ''Semester 5'', VDec 150000 2],
      [VStr ''Semester 6'', VDec 150000 2],
      [VStr ''Final Exam'', VDec 200000 2]]"

definition seed_registrations :: stmt where
  "seed_registrations = InsertInto ''registration''
     [''username'', ''password'', ''email_id'', ''mobile_no'']
     [[VStr ''admin'', VStr ''admin123'', VStr ''admin@skylink.edu'', VStr ''9876543210''],
      [VStr ''student1'', VStr ''pass123'', VStr ''student1@skylink.edu'', VStr ''9876543211'']]"

definition seed_admission_cols :: "string list" where
  "seed_admission_cols =
     [''registration_id'', ''student_name'', ''course_name'', ''email_id'', ''date_of_birth'',
      ''father_name'', ''mother_name'', ''mobile_no'', ''aadhar_no'', ''address'', ''state'',
      ''district'', ''pincode'', ''gender'', ''previous_year_cgpa'', ''obtain_marks'',
      ''total_marks'', ''percentage'', ''passing_year'', ''status'']"

definition seed_admission_vals :: "val list" where
  "seed_admission_vals =
     [VInt 2, VStr ''John Doe'', VStr ''Bachelor of Business Administration'',
      VStr ''john.doe@skylink.edu'', VStr ''2000-05-15'', VStr ''Robert Doe'', VStr ''Mary Doe'',
      VStr ''9876543211'', VStr ''123456789012'', VStr ''123 Main Street, City Center'',
      VStr ''Maharashtra'', VStr ''Mumbai'', VStr ''400001'', VStr ''Male'', VDec 85 1,
      VInt 450, VInt 500, VDec 900 1, VInt 2022, VStr ''Approved'']"

definition seed_admission :: stmt where
  "seed_admission = InsertInto ''admission'' seed_admission_cols [seed_admission_vals]"

definition seed_student :: stmt where
  "seed_student = InsertInto ''student'' [''admission_id'', ''student_name'', ''course_name'']
     [[VInt 1, VStr ''John Doe'', VStr ''Bachelor of Business Administration'']]"

definition seed_result :: stmt where
  "seed_result = InsertInto ''result''
     [''student_id'', ''exam_id'', ''course_name'', ''subject'', ''obtain_marks'', ''total_marks'',
      ''grade'', ''exam_type'', ''cgpa'', ''result_status'']
     [[VInt 1, VInt 1, VStr ''Bachelor of Business Administration'',
       VStr ''Business Mathematics'', VInt 85, VInt 100, VStr ''A'', VStr ''Semester 1'',
       VDec 85 1, VStr ''Pass'']]"

definition seed_fee :: stmt where
  "seed_fee = InsertInto ''fee''
     [''admission_id'', ''student_name'', ''course_name'', ''exam_category'', ''amount'',
      ''payment_method'', ''payment_status'']
     [[VInt 1, VStr ''John Doe'', VStr ''Bachelor of Business Administration'',
       VStr ''Semester 1'', VDec 150000 2, VStr ''Online'', VStr ''Paid'']]"

definition seed_script :: "stmt list" where
  "seed_script =
     [seed_courses, seed_exams, seed_registrations, seed_admission, seed_student,
      seed_result, seed_fee]"

section \<open>Integrity of a store\<close>

text \<open>
  What the constraints of the definitions mean for the rows: in a key column the values
  that are not \<open>NULL\<close> are pairwise distinct, a \<open>NOT NULL\<close> column holds no \<open>NULL\<close>,
  and a foreign-key column holds \<open>NULL\<close> or a value of the referenced column.
\<close>

definition tbl_ok :: "table \<Rightarrow> bool" where
  "tbl_ok t =
     (distinct (map col_name (td_cols (t_def t))) \<and>
      (\<forall>c \<in> set (td_cols (t_def t)).
         (is_key c \<longrightarrow> distinct (filter (\<lambda>v. v \<noteq> VNull) (col_vals t (col_name c)))) \<and>
         (is_notnull c \<longrightarrow> VNull \<notin> set (col_vals t (col_name c)))))"

definition fks_ok :: "db \<Rightarrow> bool" where
  "fks_ok d =
     (\<forall>tn t. d tn = Some t \<longrightarrow>
        (\<forall>fk \<in> set (td_fks (t_def t)). \<forall>r \<in> set (t_rows t). fk_holds d r fk))"

definition store_ok :: "db \<Rightarrow> bool" where
  "store_ok d = ((\<forall>tn t. d tn = Some t \<longrightarrow> tbl_ok t) \<and> fks_ok d)"

definition has_schema :: "db \<Rightarrow> bool" where
  "has_schema d = (\<forall>td \<in> set schema_tables. \<exists>t. d (td_name td) = Some t \<and> t_def t = td)"

text \<open>
  The states a database can be in: the schema script has run on the empty database, and
  then any statements have run, each one successfully (a failed statement changes nothing).
\<close>

inductive reachable :: "db \<Rightarrow> bool" where
  created: "reachable (fst (run_script now empty_db schema_script))"
| stepped: "reachable d \<Longrightarrow> exec now d s = Inr d' \<Longrightarrow> reachable d'"

definition rows_of :: "db \<Rightarrow> string \<Rightarrow> row list" where
  "rows_of d tn = (case d tn of None \<Rightarrow> [] | Some t \<Rightarrow> t_rows t)"

definition column_of :: "db \<Rightarrow> string \<Rightarrow> string \<Rightarrow> val list" where
  "column_of d tn c = map (\<lambda>r. row_val r c) (rows_of d tn)"

section \<open>The databases the scripts build\<close>

text \<open>
  The database after the schema script has run on the empty database, and the tables
  after the seed script has then run once at clock \<open>now\<close>, written out. That the scripts
  compute exactly these is proved below (\<open>schema_run\<close>, \<open>seed_run\<close>).
\<close>

definition schema_db :: db where
  "schema_db = empty_db
     (''registration'' \<mapsto> new_table registration_def,
      ''admission'' \<mapsto> new_table admission_def,
      ''student'' \<mapsto> new_table student_def,
      ''course'' \<mapsto> new_table course_def,
      ''activity'' \<mapsto> new_table activity_def,
      ''exam'' \<mapsto> new_table exam_def,
      ''result'' \<mapsto> new_table result_def,
      ''fee'' \<mapsto> new_table fee_def,
      ''social_activity'' \<mapsto> new_table social_activity_def)"

definition seeded_course :: "nat \<Rightarrow> table" where
  "seeded_course now = \<lparr>t_def = course_def, t_rows =
     [[(''course_id'', VInt 1),
       (''course_name'', VStr ''Bachelor of Business Administration''),
       (''course_code'', VStr ''BBA''), (''duration_years'', VInt 3),
       (''created_at'', VTime now)],
      [(''course_id'', VInt 2), (''course_name'', VStr ''Bachelor of Commerce''),
       (''course_code'', VStr ''BCOM''), (''duration_years'', VInt 3),
       (''created_at'', VTime now)],
      [(''course_id'', VInt 3), (''course_name'', VStr ''Bachelor of Science''),
       (''course_code'', VStr ''BSC''), (''duration_years'', VInt 3),
       (''created_at'', VTime now)],
      [(''course_id'', VInt 4),
       (''course_name'', VStr ''Master of Business Administration''),
       (''course_code'', VStr ''MBA''), (''duration_years'', VInt 2),
       (''created_at'', VTime now)],
      [(''course_id'', VInt 5), (''course_name'', VStr ''Master of Commerce''),
       (''course_code'', VStr ''MCOM''), (''duration_years'', VInt 2),
       (''created_at'', VTime now)],
      [(''course_id'', VInt 6), (''course_name'', VStr ''Master of Science''),
       (''course_code'', VStr ''MSC''), (''duration_years'', VInt 2),
       (''created_at'', VTime now)],
      [(''course_id'', VInt 7), (''course_name'', VStr ''Data Science''),
       (''course_code'', VStr ''DS''), (''duration_years'', VInt 2),
       (''created_at'', VTime now)]],
     t_auto = 8\<rparr>"

definition seeded_exam :: "nat \<Rightarrow> table" where
  "seeded_exam now = \<lparr>t_def = exam_def, t_rows =
     [[(''exam_id'', VInt 1), (''exam_type'', VStr ''Semester 1''),
       (''exam_fee'', VDec 150000 2), (''created_at'', VTime now)],
      [(''exam_id'', VInt 2), (''exam_type'', VStr ''Semester 2''),
       (''exam_fee'', VDec 150000 2), (''created_at'', VTime now)],
      [(''exam_id'', VInt 3), (''exam_type'', VStr ''Semester 3''),
       (''exam_fee'', VDec 150000 2), (''created_at'', VTime now)],
      [(''exam_id'', VInt 4), (''exam_type'', VStr ''Semester 4''),
       (''exam_fee'', VDec 150000 2), (''created_at'', VTime now)],
      [(''exam_id'', VInt 5), (''exam_type'', VStr ''Semester 5''),
       (''exam_fee'', VDec 150000 2), (''created_at'', VTime now)],
      [(''exam_id'', VInt 6), (''exam_type'', VStr ''Semester 6''),
       (''exam_fee'', VDec 150000 2), (''created_at'', VTime now)],
      [(''exam_id'', VInt 7), (''exam_type'', VStr ''Final Exam''),
       (''exam_fee'', VDec 200000 2), (''created_at'', VTime now)]],
     t_auto = 8\<rparr>"

definition seeded_registration :: "nat \<Rightarrow> table" where
  "seeded_registration now = \<lparr>t_def = registration_def, t_rows =
     [[(''id'', VInt 1), (''username'', VStr ''admin''), (''password'', VStr ''admin123''),
       (''email_id'', VStr ''admin@skylink.edu''), (''mobile_no'', VStr ''9876543210''),
       (''created_at'', VTime now)],
      [(''id'', VInt 2), (''username'', VStr ''student1''),
       (''password'', VStr ''pass123''), (''email_id'', VStr ''student1@skylink.edu''),
       (''mobile_no'', VStr ''9876543211''), (''created_at'', VTime now)]],
     t_auto = 3\<rparr>"

definition seeded_admission :: "nat \<Rightarrow> table" where
  "seeded_admission now = \<lparr>t_def = admission_def, t_rows =
     [[(''admission_id'', VInt 1), (''registration_id'', VInt 2),
       (''student_name'', VStr ''John Doe''),
       (''course_name'', VStr ''Bachelor of Business Administration''),
       (''email_id'', VStr ''john.doe@skylink.edu''),
       (''date_of_birth'', VStr ''2000-05-15''), (''father_name'', VStr ''Robert Doe''),
       (''mother_name'', VStr ''Mary Doe''), (''mobile_no'', VStr ''9876543211''),
       (''aadhar_no'', VStr ''123456789012''),
       (''address'', VStr ''123 Main Street, City Center''),
       (''state'', VStr ''Maharashtra''), (''district'', VStr ''Mumbai''),
       (''pincode'', VStr ''400001''), (''gender'', VStr ''Male''),
       (''previous_year_cgpa'', VDec 850 2), (''obtain_marks'', VInt 450),
       (''total_marks'', VInt 500), (''percentage'', VDec 9000 2),
       (''passing_year'', VInt 2022), (''photo_path'', VNull), (''id_proof_path'', VNull),
       (''sign_path'', VNull), (''previous_year_marklist_path'', VNull),
       (''status'', VStr ''Approved''), (''created_at'', VTime now)]],
     t_auto = 2\<rparr>"

definition seeded_student :: "nat \<Rightarrow> table" where
  "seeded_student now = \<lparr>t_def = student_def, t_rows =
     [[(''student_id'', VInt 1), (''admission_id'', VInt 1),
       (''student_name'', VStr ''John Doe''),
       (''course_name'', VStr ''Bachelor of Business Administration''),
       (''activity_id'', VNull), (''created_at'', VTime now)]],
     t_auto = 2\<rparr>"

definition seeded_result :: "nat \<Rightarrow> table" where
  "seeded_result now = \<lparr>t_def = result_def, t_rows =
     [[(''result_id'', VInt 1), (''student_id'', VInt 1), (''exam_id'', VInt 1),
       (''course_name'', VStr ''Bachelor of Business Administration''),
       (''subject'', VStr ''Business Mathematics''), (''obtain_marks'', VInt 85),
       (''total_marks'', VInt 100), (''grade'', VStr ''A''),
       (''exam_type'', VStr ''Semester 1''), (''cgpa'', VDec 850 2),
       (''result_status'', VStr ''Pass''), (''created_at'', VTime now)]],
     t_auto = 2\<rparr>"

definition seeded_fee :: "nat \<Rightarrow> table" where
  "seeded_fee now = \<lparr>t_def = fee_def, t_rows =
     [[(''fee_id'', VInt 1), (''admission_id'', VInt 1),
       (''student_name'', VStr ''John Doe''),
       (''course_name'', VStr ''Bachelor of Business Administration''),
       (''exam_category'', VStr ''Semester 1''), (''amount'', VDec 150000 2),
       (''payment_method'', VStr ''Online''), (''payment_status'', VStr ''Paid''),
       (''payment_date'', VNull), (''created_at'', VTime now)]],
     t_auto = 2\<rparr>"

definition seeded_db :: "nat \<Rightarrow> db" where
  "seeded_db now = schema_db
     (''course'' \<mapsto> seeded_course now,
      ''exam'' \<mapsto> seeded_exam now,
      ''registration'' \<mapsto> seeded_registration now,
      ''admission'' \<mapsto> seeded_admission now,
      ''student'' \<mapsto> seeded_student now,
      ''result'' \<mapsto> seeded_result now,
      ''fee'' \<mapsto> seeded_fee now)"

text \<open>A student row that names no admission: \<open>admission_id\<close> is left out of the insert.\<close>

definition orphan_student :: stmt where
  "orphan_student = InsertInto ''student'' [''student_name'', ''course_name'']
     [[VStr ''Jane Roe'', VStr ''Data Science'']]"

text \<open>Inserts that repeat a seeded user name, or name an admission that does not exist.\<close>

definition repeat_admin :: stmt where
  "repeat_admin = InsertInto ''registration''
     [''username'', ''password'', ''email_id'', ''mobile_no'']
     [[VStr ''admin'', VStr ''secret'', VStr ''other@skylink.edu'', VStr ''9000000000'']]"

definition dangling_student :: stmt where
  "dangling_student = InsertInto ''student'' [''admission_id'', ''student_name'', ''course_name'']
     [[VInt 99, VStr ''Jane Roe'', VStr ''Data Science'']]"

section \<open>The page and its script\<close>

text \<open>
  The script works on the page the server rendered. An element is an object with an
  identity (\<open>ref\<close>); the heap \<open>elements\<close> holds what the script reads and writes of it.
  The tree is kept apart from the heap: the children of the document, and the subtrees
  that \<open>remove()\<close> has detached (the script still holds them). Timeouts wait in a queue
  ordered by due time, equal due times in the order they were set; the callbacks the
  script passes to \<open>setTimeout\<close> are the constructors of \<open>task\<close>, each with the
  variables its closure captures. Time is the timer clock \<open>clock\<close>, in milliseconds: a
  timeout fires when the clock reaches its due time.
\<close>

type_synonym ref = nat

type_synonym code_unit = "16 word"

record element =
  tag :: string
  attrs :: "(string \<times> string) list"
  classes :: "string list"
  el_value :: "code_unit list"
  border_color :: string
  display :: string
  opacity :: string
  disabled :: bool

datatype node = Text string | Elem ref "node list"

datatype task = FadeAlert ref | RemoveAlert ref | RestoreButton ref string

record page =
  elements :: "ref \<Rightarrow> element"
  document :: "node list"
  detached :: "node list"
  clock :: nat
  timers :: "(nat \<times> task) list"
  fired :: "task list"
  scrolled :: "ref list"

record event =
  default_prevented :: bool

datatype js_error = TypeError | SyntaxError

datatype ('r, 's) outcome = Returned 'r 's | Threw js_error 's

subsection \<open>The tree\<close>

fun elems :: "node list \<Rightarrow> ref list" where
  "elems [] = []"
| "elems (Text t # ns) = elems ns"
| "elems (Elem q kids # ns) = q # elems kids @ elems ns"

fun find_node :: "ref \<Rightarrow> node list \<Rightarrow> node list option" where
  "find_node r [] = None"
| "find_node r (Text t # ns) = find_node r ns"
| "find_node r (Elem q kids # ns) =
     (if q = r then Some kids
      else (case find_node r kids of Some k \<Rightarrow> Some k | None \<Rightarrow> find_node r ns))"

fun cut :: "ref \<Rightarrow> node list \<Rightarrow> node list" where
  "cut r [] = []"
| "cut r (Text t # ns) = Text t # cut r ns"
| "cut r (Elem q kids # ns) = (if q = r then cut r ns else Elem q (cut r kids) # cut r ns)"

fun set_kids :: "ref \<Rightarrow> node list \<Rightarrow> node list \<Rightarrow> node list" where
  "set_kids r new [] = []"
| "set_kids r new (Text t # ns) = Text t # set_kids r new ns"
| "set_kids r new (Elem q kids # ns) =
     (if q = r then Elem q new # set_kids r new ns
      else Elem q (set_kids r new kids) # set_kids r new ns)"

fun text_of :: "node list \<Rightarrow> string" where
  "text_of [] = []"
| "text_of (Text t # ns) = t @ text_of ns"
| "text_of (Elem q kids # ns) = text_of kids @ text_of ns"

text \<open>The elements that are the first element child of their parent.\<close>

fun first_children :: "bool \<Rightarrow> node list \<Rightarrow> ref list" where
  "first_children first [] = []"
| "first_children first (Text t # ns) = first_children first ns"
| "first_children first (Elem q kids # ns) =
     (if first then [q] else []) @ first_children True kids @ first_children False ns"

definition children_of :: "page \<Rightarrow> ref \<Rightarrow> node list option" where
  "children_of s r =
     (case find_node r (document s) of
        Some k \<Rightarrow> Some k
      | None \<Rightarrow> find_node r (detached s))"

subsection \<open>Element properties\<close>

definition attribute :: "page \<Rightarrow> ref \<Rightarrow> string \<Rightarrow> string option" where
  "attribute s r a = map_of (attrs (elements s r)) a"

definition set_border_color :: "ref \<Rightarrow> string \<Rightarrow> page \<Rightarrow> page" where
  "set_border_color r c s =
     s\<lparr>elements := (elements s)(r := (elements s r)\<lparr>border_color := c\<rparr>)\<rparr>"

definition set_display :: "ref \<Rightarrow> string \<Rightarrow> page \<Rightarrow> page" where
  "set_display r c s = s\<lparr>elements := (elements s)(r := (elements s r)\<lparr>display := c\<rparr>)\<rparr>"

definition set_opacity :: "ref \<Rightarrow> string \<Rightarrow> page \<Rightarrow> page" where
  "set_opacity r c s = s\<lparr>elements := (elements s)(r := (elements s r)\<lparr>opacity := c\<rparr>)\<rparr>"

definition set_disabled :: "ref \<Rightarrow> bool \<Rightarrow> page \<Rightarrow> page" where
  "set_disabled r b s = s\<lparr>elements := (elements s)(r := (elements s r)\<lparr>disabled := b\<rparr>)\<rparr>"

text \<open>
  \<open>textContent\<close>: read, the text of all descendants in order; written, the children are
  replaced by one text node (by none, for the empty string).
\<close>

definition text_content :: "page \<Rightarrow> ref \<Rightarrow> string" where
  "text_content s r = (case children_of s r of Some k \<Rightarrow> text_of k | None \<Rightarrow> [])"

definition set_text_content :: "ref \<Rightarrow> string \<Rightarrow> page \<Rightarrow> page" where
  "set_text_content r t s =
     s\<lparr>document := set_kids r (if t = [] then [] else [Text t]) (document s),
       detached := set_kids r (if t = [] then [] else [Text t]) (detached s)\<rparr>"

text \<open>
  \<open>remove()\<close> takes the element, with its subtree, out of its parent. Taken out of the
  document it stays with the script as a detached tree.
\<close>

definition remove_node :: "ref \<Rightarrow> page \<Rightarrow> page" where
  "remove_node r s =
     (case find_node r (document s) of
        Some k \<Rightarrow> s\<lparr>document := cut r (document s), detached := detached s @ [Elem r k]\<rparr>
      | None \<Rightarrow>
          (case find_node r (detached s) of
             Some k \<Rightarrow> s\<lparr>detached := cut r (detached s) @ [Elem r k]\<rparr>
           | None \<Rightarrow> s))"

subsection \<open>Selectors\<close>

text \<open>The selectors the script writes out, by shape.\<close>

datatype selector =
    ById string
  | ByTag string
  | ByClass string
  | ByClassFirstChild string
  | ByTagAttr string string
  | ByTagAttrIs string string string
  | ByTagAttrPrefix string string string

definition ascii_lower :: "string \<Rightarrow> string" where
  "ascii_lower s =
     map (\<lambda>c. if 65 \<le> (of_char c :: nat) \<and> (of_char c :: nat) \<le> 90
               then char_of ((of_char c :: nat) + 32) else c) s"

fun matches :: "page \<Rightarrow> selector \<Rightarrow> ref \<Rightarrow> bool" where
  "matches s (ById i) r = (attribute s r ''id'' = Some i)"
| "matches s (ByTag t) r = (tag (elements s r) = t)"
| "matches s (ByClass c) r = (c \<in> set (classes (elements s r)))"
| "matches s (ByClassFirstChild c) r =
     (c \<in> set (classes (elements s r)) \<and> r \<in> set (first_children True (document s)))"
| "matches s (ByTagAttr t a) r = (tag (elements s r) = t \<and> attribute s r a \<noteq> None)"
| "matches s (ByTagAttrIs t a v) r =
     (tag (elements s r) = t \<and>
      (case attribute s r a of None \<Rightarrow> False | Some w \<Rightarrow> ascii_lower w = ascii_lower v))"
| "matches s (ByTagAttrPrefix t a p) r =
     (tag (elements s r) = t \<and>
      (case attribute s r a of None \<Rightarrow> False | Some w \<Rightarrow> take (length p) w = p))"

definition query_all :: "page \<Rightarrow> selector \<Rightarrow> ref list" where
  "query_all s sel = filter (matches s sel) (elems (document s))"

definition query_first :: "page \<Rightarrow> selector \<Rightarrow> ref option" where
  "query_first s sel = (case query_all s sel of [] \<Rightarrow> None | r # _ \<Rightarrow> Some r)"

text \<open>Queries on an element look among its descendants.\<close>

definition query_all_in :: "page \<Rightarrow> ref \<Rightarrow> selector \<Rightarrow> ref list" where
  "query_all_in s root sel =
     (case children_of s root of None \<Rightarrow> [] | Some k \<Rightarrow> filter (matches s sel) (elems k))"

definition query_first_in :: "page \<Rightarrow> ref \<Rightarrow> selector \<Rightarrow> ref option" where
  "query_first_in s root sel = (case query_all_in s root sel of [] \<Rightarrow> None | r # _ \<Rightarrow> Some r)"

definition get_element_by_id :: "page \<Rightarrow> string \<Rightarrow> ref option" where
  "get_element_by_id s i = (if i = [] then None else query_first s (ById i))"

subsection \<open>Timers\<close>

fun enqueue :: "nat \<times> task \<Rightarrow> (nat \<times> task) list \<Rightarrow> (nat \<times> task) list" where
  "enqueue x [] = [x]"
| "enqueue x (y # q) = (if fst y \<le> fst x then y # enqueue x q else x # y # q)"

definition set_timeout :: "task \<Rightarrow> nat \<Rightarrow> page \<Rightarrow> page" where
  "set_timeout f delay s = s\<lparr>timers := enqueue (clock s + delay, f) (timers s)\<rparr>"

subsection \<open>showRegister, showLogin\<close>

definition showRegister :: "page \<Rightarrow> (unit, page) outcome" where
  "showRegister s =
     (case query_first s (ByClassFirstChild ''auth-card'') of
        None \<Rightarrow> Threw TypeError s
      | Some panel \<Rightarrow>
          (let s1 = set_display panel ''none'' s in
           case get_element_by_id s1 ''register-form'' of
             None \<Rightarrow> Threw TypeError s1
           | Some form \<Rightarrow> Returned () (set_display form ''block'' s1)))"

definition showLogin :: "page \<Rightarrow> (unit, page) outcome" where
  "showLogin s =
     (case query_first s (ByClassFirstChild ''auth-card'') of
        None \<Rightarrow> Threw TypeError s
      | Some panel \<Rightarrow>
          (let s1 = set_display panel ''block'' s in
           case get_element_by_id s1 ''register-form'' of
             None \<Rightarrow> Threw TypeError s1
           | Some form \<Rightarrow> Returned () (set_display form ''none'' s1)))"

subsection \<open>validateForm\<close>

text \<open>
  \<open>String.prototype.trim\<close> strips white space and line terminators: TAB, LF, VT, FF, CR,
  SPACE, NBSP, U+1680, U+2000 to U+200A, U+2028, U+2029, U+202F, U+205F, U+3000, U+FEFF.
\<close>

definition is_space :: "code_unit \<Rightarrow> bool" where
  "is_space c =
     (let n = unat c in
      (9 \<le> n \<and> n \<le> 13) \<or> n = 32 \<or> n = 160 \<or> n = 5760 \<or> (8192 \<le> n \<and> n \<le> 8202) \<or>
      n = 8232 \<or> n = 8233 \<or> n = 8239 \<or> n = 8287 \<or> n = 12288 \<or> n = 65279)"

definition trim :: "code_unit list \<Rightarrow> code_unit list" where
  "trim v = rev (dropWhile is_space (rev (dropWhile is_space v)))"

fun validate_inputs :: "ref list \<Rightarrow> bool \<Rightarrow> page \<Rightarrow> bool \<times> page" where
  "validate_inputs [] isValid s = (isValid, s)"
| "validate_inputs (input # rest) isValid s =
     (if trim (el_value (elements s input)) = []
      then validate_inputs rest False (set_border_color input ''#dc3545'' s)
      else validate_inputs rest isValid (set_border_color input ''#28a745'' s))"

definition validateForm :: "string \<Rightarrow> page \<Rightarrow> (bool, page) outcome" where
  "validateForm formId s =
     (case get_element_by_id s formId of
        None \<Rightarrow> Threw TypeError s
      | Some form \<Rightarrow>
          (case validate_inputs (query_all_in s form (ByTagAttr ''input'' ''required'')) True s of
             (isValid, s') \<Rightarrow> Returned isValid s'))"

subsection \<open>Alerts\<close>

definition on_dom_content_loaded :: "page \<Rightarrow> page" where
  "on_dom_content_loaded s =
     fold (\<lambda>alert. set_timeout (FadeAlert alert) 5000) (query_all s (ByClass ''alert'')) s"

subsection \<open>Anchors\<close>

text \<open>
  The click listener of an anchor. The selector is the anchor's \<open>href\<close>, a string; how
  the browser reads a string as a selector is the argument \<open>parse\<close> (\<open>None\<close>: not a
  selector, \<open>querySelector\<close> throws). The listener is given to the anchors
  \<open>fragment_anchors\<close> finds when the script runs; a click event can be cancelled.
\<close>

definition fragment_anchors :: "page \<Rightarrow> ref list" where
  "fragment_anchors s = query_all s (ByTagAttrPrefix ''a'' ''href'' ''#'')"

definition prevent_default :: "event \<Rightarrow> event" where
  "prevent_default e = e\<lparr>default_prevented := True\<rparr>"

definition scroll_into_view :: "ref \<Rightarrow> page \<Rightarrow> page" where
  "scroll_into_view r s = s\<lparr>scrolled := scrolled s @ [r]\<rparr>"

definition anchor_click ::
  "(string \<Rightarrow> selector option) \<Rightarrow> ref \<Rightarrow> event \<Rightarrow> page \<Rightarrow> (unit, event \<times> page) outcome" where
  "anchor_click parse anchor e s =
     (let e1 = prevent_default e;
          href = (case attribute s anchor ''href'' of None \<Rightarrow> ''null'' | Some h \<Rightarrow> h)
      in case parse href of
           None \<Rightarrow> Threw SyntaxError (e1, s)
         | Some sel \<Rightarrow>
             (case query_first s sel of
                Some target \<Rightarrow> Returned () (e1, scroll_into_view target s)
              | None \<Rightarrow> Returned () (e1, s)))"

text \<open>
  A reading of fragment hrefs for the examples: \<open>#\<close> and a name select by id, \<open>#\<close>
  alone is not a selector.
\<close>

fun fragment_selector :: "string \<Rightarrow> selector option" where
  "fragment_selector [] = None"
| "fragment_selector (c # cs) = (if c = CHR ''#'' \<and> cs \<noteq> [] then Some (ById cs) else None)"

subsection \<open>Submit buttons\<close>

definition showLoading :: "ref \<Rightarrow> page \<Rightarrow> page" where
  "showLoading button s =
     (let originalText = text_content s button;
          s1 = set_text_content button ''Loading...'' s;
          s2 = set_disabled button True s1
      in set_timeout (RestoreButton button originalText) 2000 s2)"

definition submitting_forms :: "page \<Rightarrow> ref list" where
  "submitting_forms s = query_all s (ByTag ''form'')"

definition form_submit :: "ref \<Rightarrow> page \<Rightarrow> page" where
  "form_submit form s =
     (case query_first_in s form (ByTagAttrIs ''button'' ''type'' ''submit'') of
        Some submitButton \<Rightarrow> showLoading submitButton s
      | None \<Rightarrow> s)"

subsection \<open>Reading outcomes and pages\<close>

fun state_of :: "('r, 's) outcome \<Rightarrow> 's" where
  "state_of (Returned r s) = s"
| "state_of (Threw e s) = s"

definition required_inputs :: "page \<Rightarrow> ref \<Rightarrow> ref list" where
  "required_inputs s form = query_all_in s form (ByTagAttr ''input'' ''required'')"

definition href_of :: "page \<Rightarrow> ref \<Rightarrow> string" where
  "href_of s anchor = (case attribute s anchor ''href'' of None \<Rightarrow> ''null'' | Some h \<Rightarrow> h)"

text \<open>The element an anchor's href selects, when the href is a selector and selects one.\<close>

definition anchor_target :: "(string \<Rightarrow> selector option) \<Rightarrow> page \<Rightarrow> ref \<Rightarrow> ref option" where
  "anchor_target parse s anchor =
     (case parse (href_of s anchor) of None \<Rightarrow> None | Some sel \<Rightarrow> query_first s sel)"

subsection \<open>Example pages\<close>

definition blank :: element where
  "blank = \<lparr>tag = ''div'', attrs = [], classes = [], el_value = [], border_color = [],
     display = [], opacity = [], disabled = False\<rparr>"

text \<open>
  A login page: a card with a form of two required inputs, the first holding only
  blanks and the second holding \<open>ab\<close>, and a submit button; then the registration panel,
  an alert, and an anchor to \<open>#top\<close>, an id no element has.
\<close>

definition login_elements :: "ref \<Rightarrow> element" where
  "login_elements =
     (\<lambda>_. blank)
     (10 := blank\<lparr>classes := [''auth-card'']\<rparr>,
      11 := blank\<lparr>tag := ''form'', attrs := [(''id'', ''login'')]\<rparr>,
      12 := blank\<lparr>tag := ''input'', attrs := [(''name'', ''user''), (''required'', [])],
             el_value := [32, 9, 32]\<rparr>,
      13 := blank\<lparr>tag := ''input'', attrs := [(''name'', ''pass''), (''required'', [])],
             el_value := [97, 98]\<rparr>,
      14 := blank\<lparr>tag := ''button'', attrs := [(''type'', ''submit'')]\<rparr>,
      15 := blank\<lparr>attrs := [(''id'', ''register-form'')], classes := [''auth-card'']\<rparr>,
      16 := blank\<lparr>classes := [''alert'', ''alert-success'']\<rparr>,
      17 := blank\<lparr>tag := ''a'', attrs := [(''href'', ''#top'')]\<rparr>)"

definition login_page :: page where
  "login_page =
     \<lparr>elements = login_elements,
      document =
        [Elem 10 [Elem 11 [Elem 12 [], Elem 13 [], Elem 14 [Text ''Sign in'']]],
         Elem 15 [],
         Elem 16 [Text ''Welcome back''],
         Elem 17 [Text ''Top'']],
      detached = [], clock = 0, timers = [], fired = [], scrolled = []\<rparr>"

text \<open>The same page without the registration panel.\<close>

definition bare_page :: page where
  "bare_page = login_page\<lparr>document :=
     [Elem 10 [Elem 11 [Elem 12 [], Elem 13 [], Elem 14 [Text ''Sign in'']]],
      Elem 16 [Text ''Welcome back''],
      Elem 17 [Text ''Top'']]\<rparr>"


subsection \<open>The timer loop\<close>

fun run_task :: "task \<Rightarrow> page \<Rightarrow> page" where
  "run_task (FadeAlert alert) s = set_timeout (RemoveAlert alert) 300 (set_opacity alert ''0'' s)"
| "run_task (RemoveAlert alert) s = remove_node alert s"
| "run_task (RestoreButton button originalText) s =
     set_disabled button False (set_text_content button originalText s)"

fun weight :: "task \<Rightarrow> nat" where
  "weight (FadeAlert a) = 2"
| "weight (RemoveAlert a) = 1"
| "weight (RestoreButton b t) = 1"

definition pending :: "page \<Rightarrow> nat" where
  "pending s = sum_list (map (\<lambda>x. weight (snd x)) (timers s))"

text \<open>
  The clock runs to \<open>T\<close>: the timeouts that come due are fired in queue order, each at
  its due time, until none is due.
\<close>

function advance :: "nat \<Rightarrow> page \<Rightarrow> page" where
  "advance T s =
     (case timers s of
        [] \<Rightarrow> s\<lparr>clock := max (clock s) T\<rparr>
      | (due, f) # rest \<Rightarrow>
          if due \<le> T
          then advance T (run_task f (s\<lparr>clock := max (clock s) due, timers := rest,
                 fired := fired s @ [f]\<rparr>))
          else s\<lparr>clock := max (clock s) T\<rparr>)"
  by pat_completeness auto


lemma enqueue_weight:
  "sum_list (map (\<lambda>x. weight (snd x)) (enqueue x q))
   = weight (snd x) + sum_list (map (\<lambda>x. weight (snd x)) q)"
  by (induction q) auto

lemma run_task_weight:
  "sum_list (map (\<lambda>x. weight (snd x))
     (timers (run_task f (s\<lparr>clock := n, timers := rest, fired := l\<rparr>))))
   < weight f + sum_list (map (\<lambda>x. weight (snd x)) rest)"
  by (cases f)
    (auto simp: set_timeout_def set_opacity_def remove_node_def set_disabled_def
      set_text_content_def enqueue_weight split: option.splits)

termination advance
  by (relation "measure (\<lambda>(T, s). pending s)") (auto simp: pending_def run_task_weight)

declare advance.simps [simp del]

section \<open>Properties of the relational store\<close>

subsection \<open>Rows\<close>

lemma row_val_Cons [simp]:
  "row_val ((n, v) # r) c = (if c = n then v else row_val r c)"
  by (simp add: row_val_def)

lemma coerce_not_null: "coerce ty v = Some w \<Longrightarrow> w \<noteq> VNull"
  by (cases ty; cases v) (auto split: if_splits)

lemma coerce_same:
  "coerce ty v = Some w \<Longrightarrow> (\<forall>p s. ty \<noteq> TDecimal p s) \<Longrightarrow> w = v"
  by (cases ty; cases v) (auto split: if_splits)

lemma column_value_notnull:
  "column_value now g c a = Inr (v, a') \<Longrightarrow> is_notnull c \<Longrightarrow> v \<noteq> VNull"
  by (auto simp: column_value_def Let_def dest: coerce_not_null
      split: if_splits option.splits val.splits)

lemma column_value_supplied:
  assumes "column_value now g c a = Inr (v, a')" and "g (col_name c) = Some w" and "w \<noteq> VNull"
    and "\<not> is_autoinc c" and "\<forall>p s. col_type c \<noteq> TDecimal p s"
  shows "v = w"
  using assms
  by (auto simp: column_value_def Let_def dest: coerce_same
      split: if_splits option.splits val.splits)

lemma fill_row_names:
  "fill_row now g cs a = Inr (r, a') \<Longrightarrow> map fst r = map col_name cs"
  by (induction cs arbitrary: a r a') (auto split: sum.splits prod.splits)

lemma row_val_absent: "c \<notin> fst ` set r \<Longrightarrow> row_val r c = VNull"
  by (simp add: row_val_def map_of_eq_None_iff [THEN iffD2])

lemma fill_row_val:
  assumes "fill_row now g cs a = Inr (r, a')" and "distinct (map col_name cs)" and "c \<in> set cs"
  shows "\<exists>a1 a2. column_value now g c a1 = Inr (row_val r (col_name c), a2)"
  using assms
proof (induction cs arbitrary: a r a')
  case Nil
  then show ?case by simp
next
  case (Cons x xs)
  from Cons.prems(1) obtain v b r' where
    cv: "column_value now g x a = Inr (v, b)" and
    fr: "fill_row now g xs b = Inr (r', a')" and
    r: "r = (col_name x, v) # r'"
    by (auto split: sum.splits prod.splits)
  show ?case
  proof (cases "c = x")
    case True
    with cv r show ?thesis by auto
  next
    case False
    with Cons.prems(3) have cin: "c \<in> set xs"
      by simp
    with Cons.prems(2) have ne: "col_name c \<noteq> col_name x"
      by (metis distinct.simps(2) image_eqI list.simps(9) set_map)
    from Cons.IH [OF fr _ cin] Cons.prems(2) ne r show ?thesis by auto
  qed
qed

subsection \<open>One row\<close>

lemma unique_violation_None:
  "unique_violation tn t r = None \<Longrightarrow> c \<in> set (td_cols (t_def t)) \<Longrightarrow> is_key c \<Longrightarrow>
   row_val r (col_name c) = VNull \<or> row_val r (col_name c) \<notin> set (col_vals t (col_name c))"
  by (auto simp: unique_violation_def find_None_iff split: option.splits)

lemma fk_violation_None:
  "fk_violation tn d r fks = None \<Longrightarrow> fk \<in> set fks \<Longrightarrow> fk_holds d r fk"
  by (auto simp: fk_violation_def find_None_iff split: option.splits)

lemma insert_row_Inr:
  assumes "insert_row now d tn t cols vals = Inr t'"
  obtains r a where
    "length vals = length cols"
    "fill_row now (map_of (zip cols vals)) (td_cols (t_def t)) (t_auto t) = Inr (r, a)"
    "unique_violation tn t r = None"
    "fk_violation tn (d(tn \<mapsto> t)) r (td_fks (t_def t)) = None"
    "t' = t\<lparr>t_rows := t_rows t @ [r], t_auto := a\<rparr>"
  using assms
  by (auto simp: insert_row_def split: if_splits sum.splits prod.splits option.splits)

lemma insert_row_def_same: "insert_row now d tn t cols vals = Inr t' \<Longrightarrow> t_def t' = t_def t"
  by (erule insert_row_Inr) simp

lemma insert_rows_def_same: "insert_rows now d tn t cols rows = Inr t' \<Longrightarrow> t_def t' = t_def t"
  by (induction rows arbitrary: t) (auto split: sum.splits dest: insert_row_def_same)

text \<open>The rows a successful statement appends, one per value list, each filled from it.\<close>

lemma insert_rows_appends:
  "insert_rows now d tn t cols rows = Inr t' \<Longrightarrow>
   \<exists>rs. t_rows t' = t_rows t @ rs \<and>
     list_all2 (\<lambda>vals r. \<exists>a a'. fill_row now (map_of (zip cols vals)) (td_cols (t_def t)) a
        = Inr (r, a')) rows rs"
proof (induction rows arbitrary: t)
  case Nil
  then show ?case by simp
next
  case (Cons vals rest)
  from Cons.prems obtain t1 where
    one: "insert_row now d tn t cols vals = Inr t1" and
    more: "insert_rows now d tn t1 cols rest = Inr t'"
    by (auto split: sum.splits)
  from one obtain r a where
    fr: "fill_row now (map_of (zip cols vals)) (td_cols (t_def t)) (t_auto t) = Inr (r, a)" and
    t1: "t1 = t\<lparr>t_rows := t_rows t @ [r], t_auto := a\<rparr>"
    by (rule insert_row_Inr)
  from Cons.IH [OF more] t1 obtain rs where
    rs: "t_rows t' = t_rows t @ r # rs"
      "list_all2 (\<lambda>vals r. \<exists>a a'. fill_row now (map_of (zip cols vals)) (td_cols (t_def t)) a
         = Inr (r, a')) rest rs"
    by auto
  from fr rs show ?case
    by (intro exI [of _ "r # rs"]) auto
qed


subsection \<open>Statements keep the store's integrity\<close>

lemma col_vals_append:
  "col_vals (t\<lparr>t_rows := t_rows t @ [r], t_auto := a\<rparr>) c = col_vals t c @ [row_val r c]"
  by (simp add: col_vals_def)

lemma insert_row_tbl_ok:
  assumes ok: "tbl_ok t" and ins: "insert_row now d tn t cols vals = Inr t'"
  shows "tbl_ok t'"
proof -
  from ins obtain r a where
    fr: "fill_row now (map_of (zip cols vals)) (td_cols (t_def t)) (t_auto t) = Inr (r, a)" and
    uv: "unique_violation tn t r = None" and
    t': "t' = t\<lparr>t_rows := t_rows t @ [r], t_auto := a\<rparr>"
    by (rule insert_row_Inr)
  from ok have dist: "distinct (map col_name (td_cols (t_def t)))"
    by (simp add: tbl_ok_def)
  have "is_key c \<longrightarrow> distinct (filter (\<lambda>v. v \<noteq> VNull) (col_vals t' (col_name c)))"
    if c: "c \<in> set (td_cols (t_def t))" for c
  proof
    assume k: "is_key c"
    from ok c k have "distinct (filter (\<lambda>v. v \<noteq> VNull) (col_vals t (col_name c)))"
      by (simp add: tbl_ok_def)
    with unique_violation_None [OF uv c k] show
      "distinct (filter (\<lambda>v. v \<noteq> VNull) (col_vals t' (col_name c)))"
      by (auto simp: t' col_vals_append)
  qed
  moreover have "is_notnull c \<longrightarrow> VNull \<notin> set (col_vals t' (col_name c))"
    if c: "c \<in> set (td_cols (t_def t))" for c
  proof
    assume n: "is_notnull c"
    from ok c n have "VNull \<notin> set (col_vals t (col_name c))"
      by (simp add: tbl_ok_def)
    moreover from fill_row_val [OF fr dist c] n have "row_val r (col_name c) \<noteq> VNull"
      by (auto dest: column_value_notnull)
    ultimately show "VNull \<notin> set (col_vals t' (col_name c))"
      by (auto simp: t' col_vals_append)
  qed
  ultimately show ?thesis
    using dist by (simp add: tbl_ok_def t')
qed

lemma fk_holds_mono:
  assumes "fk_holds d r fk"
    and "\<And>n t. d n = Some t \<Longrightarrow> \<exists>t'. d' n = Some t' \<and> (\<forall>c. set (col_vals t c) \<subseteq> set (col_vals t' c))"
  shows "fk_holds d' r fk"
proof (cases "row_val r (fk_col fk) = VNull")
  case True
  then show ?thesis by (simp add: fk_holds_def)
next
  case False
  with assms(1) obtain t where
    t: "d (fk_table fk) = Some t" "row_val r (fk_col fk) \<in> set (col_vals t (fk_ref fk))"
    by (auto simp: fk_holds_def split: option.splits)
  from assms(2) [OF t(1)] obtain t' where
    "d' (fk_table fk) = Some t'" "set (col_vals t (fk_ref fk)) \<subseteq> set (col_vals t' (fk_ref fk))"
    by blast
  with t(2) show ?thesis by (auto simp: fk_holds_def)
qed

lemma store_ok_tbl: "store_ok d \<Longrightarrow> d n = Some t \<Longrightarrow> tbl_ok t"
  unfolding store_ok_def by blast

lemma store_ok_fk:
  "store_ok d \<Longrightarrow> d n = Some t \<Longrightarrow> fk \<in> set (td_fks (t_def t)) \<Longrightarrow> r \<in> set (t_rows t) \<Longrightarrow>
   fk_holds d r fk"
  unfolding store_ok_def fks_ok_def by blast

lemma insert_row_store_ok:
  assumes ok: "store_ok (d(tn \<mapsto> t))" and ins: "insert_row now d tn t cols vals = Inr t'"
  shows "store_ok (d(tn \<mapsto> t'))"
proof -
  from ins obtain r a where
    fv: "fk_violation tn (d(tn \<mapsto> t)) r (td_fks (t_def t)) = None" and
    t': "t' = t\<lparr>t_rows := t_rows t @ [r], t_auto := a\<rparr>"
    by (rule insert_row_Inr)
  have grow: "\<exists>u'. (d(tn \<mapsto> t')) n = Some u' \<and> (\<forall>c. set (col_vals u c) \<subseteq> set (col_vals u' c))"
    if "(d(tn \<mapsto> t)) n = Some u" for n u
    using that by (auto simp: t' col_vals_append)
  have tbl: "tbl_ok u" if "(d(tn \<mapsto> t')) n = Some u" for n u
  proof (cases "n = tn")
    case True
    with that have "u = t'" by simp
    moreover have "tbl_ok t"
      by (rule store_ok_tbl [OF ok, of tn]) simp
    ultimately show ?thesis using insert_row_tbl_ok [OF _ ins] by simp
  next
    case False
    with that have "(d(tn \<mapsto> t)) n = Some u" by simp
    with ok show ?thesis by (rule store_ok_tbl)
  qed
  have fk: "fk_holds (d(tn \<mapsto> t')) x fk"
    if u: "(d(tn \<mapsto> t')) n = Some u" and f: "fk \<in> set (td_fks (t_def u))" and x: "x \<in> set (t_rows u)"
    for n u fk x
  proof -
    have "fk_holds (d(tn \<mapsto> t)) x fk"
    proof (cases "n = tn")
      case True
      with u have ut: "u = t'" by simp
      show ?thesis
      proof (cases "x = r")
        case True
        with fv f ut t' show ?thesis by (auto dest: fk_violation_None)
      next
        case False
        with x ut t' have "x \<in> set (t_rows t)" by simp
        moreover from f ut t' have "fk \<in> set (td_fks (t_def t))" by simp
        moreover have "(d(tn \<mapsto> t)) tn = Some t" by simp
        ultimately show ?thesis using ok by (blast intro: store_ok_fk)
      qed
    next
      case False
      with u have "(d(tn \<mapsto> t)) n = Some u" by simp
      with ok show ?thesis using f x by (rule store_ok_fk)
    qed
    then show ?thesis by (rule fk_holds_mono) (rule grow)
  qed
  from tbl fk show ?thesis
    unfolding store_ok_def fks_ok_def by blast
qed

lemma insert_rows_store_ok:
  "store_ok (d(tn \<mapsto> t)) \<Longrightarrow> insert_rows now d tn t cols rows = Inr t' \<Longrightarrow>
   store_ok (d(tn \<mapsto> t'))"
  by (induction rows arbitrary: t) (auto split: sum.splits dest: insert_row_store_ok)

lemma exec_insert_Inr:
  assumes "exec_insert now d tn cols rows = Inr d'"
  obtains t t' where "d tn = Some t" "insert_rows now d tn t cols rows = Inr t'" "d' = d(tn \<mapsto> t')"
  using assms
  by (auto simp: exec_insert_def split: option.splits if_splits sum.splits)

lemma exec_insert_store_ok:
  assumes "store_ok d" and "exec_insert now d tn cols rows = Inr d'"
  shows "store_ok d'"
proof -
  from assms(2) obtain t t' where
    t: "d tn = Some t" "insert_rows now d tn t cols rows = Inr t'" "d' = d(tn \<mapsto> t')"
    by (rule exec_insert_Inr)
  from t(1) have "d(tn \<mapsto> t) = d" by (rule map_upd_triv)
  with assms(1) t show ?thesis
    using insert_rows_store_ok [of d tn t now cols rows t'] by simp
qed

lemma exec_create_store_ok:
  assumes ok: "store_ok d" and cr: "exec_create d td = Inr d'"
  shows "store_ok d'"
proof (cases "d (td_name td)")
  case (Some t)
  with cr ok show ?thesis by (simp add: exec_create_def)
next
  case None
  with cr have dok: "def_ok d td" and d': "d' = d(td_name td \<mapsto> new_table td)"
    by (auto simp: exec_create_def split: if_splits)
  have grow: "\<exists>u'. d' n = Some u' \<and> (\<forall>c. set (col_vals u c) \<subseteq> set (col_vals u' c))"
    if "d n = Some u" for n u
    using that None by (auto simp: d')
  have tbl: "tbl_ok u" if "d' n = Some u" for n u
  proof (cases "n = td_name td")
    case True
    with that d' have "u = new_table td" by simp
    with dok show ?thesis
      by (simp add: tbl_ok_def new_table_def def_ok_def col_vals_def)
  next
    case False
    with that d' have "d n = Some u" by simp
    with ok show ?thesis by (rule store_ok_tbl)
  qed
  have fk: "fk_holds d' x fk"
    if u: "d' n = Some u" and f: "fk \<in> set (td_fks (t_def u))" and x: "x \<in> set (t_rows u)"
    for n u fk x
  proof (cases "n = td_name td")
    case True
    with u d' x show ?thesis by (auto simp: new_table_def)
  next
    case False
    with u d' have "d n = Some u" by simp
    with ok have "fk_holds d x fk" using f x by (rule store_ok_fk)
    then show ?thesis by (rule fk_holds_mono) (rule grow)
  qed
  from tbl fk show ?thesis
    unfolding store_ok_def fks_ok_def by blast
qed

lemma exec_store_ok: "store_ok d \<Longrightarrow> exec now d s = Inr d' \<Longrightarrow> store_ok d'"
  by (cases s) (auto dest: exec_create_store_ok exec_insert_store_ok)

lemma run_script_store_ok: "store_ok d \<Longrightarrow> store_ok (fst (run_script now d ss))"
  by (induction ss arbitrary: d) (auto split: sum.splits dest: exec_store_ok)

lemma store_ok_empty: "store_ok empty_db"
  by (simp add: store_ok_def fks_ok_def empty_db_def)

subsection \<open>Statements keep the tables and their definitions\<close>

lemma exec_keeps_def:
  assumes "exec now d s = Inr d'" and "d n = Some t"
  shows "\<exists>t'. d' n = Some t' \<and> t_def t' = t_def t"
proof (cases s)
  case (CreateTableIfNotExists td)
  with assms show ?thesis
    by (auto simp: exec_create_def split: option.splits if_splits)
next
  case (InsertInto tn cols rows)
  with assms(1) obtain u u' where
    u: "d tn = Some u" "insert_rows now d tn u cols rows = Inr u'" "d' = d(tn \<mapsto> u')"
    by (auto elim: exec_insert_Inr)
  with assms(2) show ?thesis
    by (auto dest: insert_rows_def_same)
qed

lemma exec_has_schema: "has_schema d \<Longrightarrow> exec now d s = Inr d' \<Longrightarrow> has_schema d'"
  unfolding has_schema_def by (metis exec_keeps_def)


section \<open>Running the two scripts\<close>

lemmas table_defs =
  registration_def_def admission_def_def student_def_def course_def_def activity_def_def
  exam_def_def result_def_def fee_def_def social_activity_def_def

lemmas insert_eval =
  exec_insert_def insert_row_def column_value_def unique_violation_def fk_violation_def
  fk_holds_def col_vals_def valid_date_def digit_of_def leap_year_def days_in_month_def
  rescale_def is_key_def is_autoinc_def is_notnull_def new_table_def row_val_def Let_def

lemma td_names [simp]:
  "td_name registration_def = ''registration''"
  "td_name admission_def = ''admission''"
  "td_name student_def = ''student''"
  "td_name course_def = ''course''"
  "td_name activity_def = ''activity''"
  "td_name exam_def = ''exam''"
  "td_name result_def = ''result''"
  "td_name fee_def = ''fee''"
  "td_name social_activity_def = ''social_activity''"
  by (simp_all add: table_defs)

lemma schema_defs_ok:
  "def_ok d registration_def"
  "d ''registration'' = Some (new_table registration_def) \<Longrightarrow> def_ok d admission_def"
  "d ''admission'' = Some (new_table admission_def) \<Longrightarrow> def_ok d student_def"
  "def_ok d course_def"
  "d ''student'' = Some (new_table student_def) \<Longrightarrow> def_ok d activity_def"
  "def_ok d exam_def"
  "d ''student'' = Some (new_table student_def) \<Longrightarrow> d ''exam'' = Some (new_table exam_def) \<Longrightarrow>
     def_ok d result_def"
  "d ''admission'' = Some (new_table admission_def) \<Longrightarrow> def_ok d fee_def"
  "d ''student'' = Some (new_table student_def) \<Longrightarrow> def_ok d social_activity_def"
  by (simp_all add: def_ok_def fk_ok_def is_key_def is_autoinc_def new_table_def table_defs)

lemma schema_run: "run_script now empty_db schema_script = (schema_db, None)"
  by (simp add: schema_script_def schema_tables_def exec_create_def schema_defs_ok
      schema_db_def empty_db_def)

lemma schema_db_tables [simp]:
  "schema_db ''registration'' = Some (new_table registration_def)"
  "schema_db ''admission'' = Some (new_table admission_def)"
  "schema_db ''student'' = Some (new_table student_def)"
  "schema_db ''course'' = Some (new_table course_def)"
  "schema_db ''activity'' = Some (new_table activity_def)"
  "schema_db ''exam'' = Some (new_table exam_def)"
  "schema_db ''result'' = Some (new_table result_def)"
  "schema_db ''fee'' = Some (new_table fee_def)"
  "schema_db ''social_activity'' = Some (new_table social_activity_def)"
  by (simp_all add: schema_db_def)

lemma seed_courses_run:
  "d ''course'' = Some (new_table course_def) \<Longrightarrow>
   exec now d seed_courses = Inr (d(''course'' \<mapsto> seeded_course now))"
  by (simp add: seed_courses_def seeded_course_def course_def_def insert_eval)

lemma seed_exams_run:
  "d ''exam'' = Some (new_table exam_def) \<Longrightarrow>
   exec now d seed_exams = Inr (d(''exam'' \<mapsto> seeded_exam now))"
  by (simp add: seed_exams_def seeded_exam_def exam_def_def insert_eval)

lemma seed_registrations_run:
  "d ''registration'' = Some (new_table registration_def) \<Longrightarrow>
   exec now d seed_registrations = Inr (d(''registration'' \<mapsto> seeded_registration now))"
  by (simp add: seed_registrations_def seeded_registration_def registration_def_def insert_eval)

lemma unique_violation_empty: "t_rows t = [] \<Longrightarrow> unique_violation tn t r = None"
  by (simp add: unique_violation_def col_vals_def find_None_iff [THEN iffD2])

lemma new_table_sel [simp]:
  "t_def (new_table td) = td" "t_rows (new_table td) = []" "t_auto (new_table td) = 1"
  by (simp_all add: new_table_def)

lemma seed_admission_named:
  "find (\<lambda>c. c \<notin> col_name ` set (td_cols admission_def)) seed_admission_cols = None"
  by (simp add: seed_admission_cols_def admission_def_def)

lemma seed_admission_distinct: "distinct seed_admission_cols"
  by (simp add: seed_admission_cols_def)

lemma seed_admission_fill:
  "fill_row now (map_of (zip seed_admission_cols seed_admission_vals)) (td_cols admission_def) 1
   = Inr (hd (t_rows (seeded_admission now)), 2)"
  by (simp add: seed_admission_cols_def seed_admission_vals_def seeded_admission_def
      admission_def_def column_value_def valid_date_def digit_of_def leap_year_def
      days_in_month_def rescale_def is_autoinc_def is_notnull_def Let_def)

lemma seed_admission_fk:
  "d ''registration'' = Some (seeded_registration now') \<Longrightarrow>
   fk_violation ''admission'' (d(''admission'' \<mapsto> t)) (hd (t_rows (seeded_admission now)))
     (td_fks admission_def) = None"
  by (simp add: fk_violation_def fk_holds_def col_vals_def row_val_def seeded_admission_def
      seeded_registration_def admission_def_def)

lemma seeded_admission_eq:
  "seeded_admission now =
   \<lparr>t_def = admission_def, t_rows = [hd (t_rows (seeded_admission now))], t_auto = 2\<rparr>"
  by (simp add: seeded_admission_def)

lemma seed_admission_run:
  assumes "d ''admission'' = Some (new_table admission_def)"
    and "d ''registration'' = Some (seeded_registration now')"
  shows "exec now d seed_admission = Inr (d(''admission'' \<mapsto> seeded_admission now))"
proof -
  have len: "length seed_admission_vals = length seed_admission_cols"
    by (simp add: seed_admission_cols_def seed_admission_vals_def)
  have fk: "fk_violation ''admission''
      (d(''admission'' \<mapsto> \<lparr>t_def = admission_def, t_rows = [], t_auto = 1\<rparr>))
      (hd (t_rows (seeded_admission now))) (td_fks admission_def) = None"
    using assms(2) by (rule seed_admission_fk)
  have "insert_row now d ''admission'' (new_table admission_def) seed_admission_cols
      seed_admission_vals =
      Inr \<lparr>t_def = admission_def, t_rows = [hd (t_rows (seeded_admission now))], t_auto = 2\<rparr>"
    by (simp add: insert_row_def new_table_def len seed_admission_fill
        unique_violation_empty fk)
  then have "insert_row now d ''admission'' (new_table admission_def) seed_admission_cols
      seed_admission_vals = Inr (seeded_admission now)"
    by (simp only: seeded_admission_eq [symmetric])
  with assms(1) show ?thesis
    by (simp add: seed_admission_def exec_insert_def seed_admission_named
        seed_admission_distinct)
qed

lemma seed_student_run:
  "d ''student'' = Some (new_table student_def) \<Longrightarrow>
   d ''admission'' = Some (seeded_admission now) \<Longrightarrow>
   exec now d seed_student = Inr (d(''student'' \<mapsto> seeded_student now))"
  by (simp add: seed_student_def seeded_student_def seeded_admission_def student_def_def
      insert_eval)

lemma seed_result_run:
  "d ''result'' = Some (new_table result_def) \<Longrightarrow>
   d ''student'' = Some (seeded_student now) \<Longrightarrow>
   d ''exam'' = Some (seeded_exam now) \<Longrightarrow>
   exec now d seed_result = Inr (d(''result'' \<mapsto> seeded_result now))"
  by (simp add: seed_result_def seeded_result_def seeded_student_def seeded_exam_def
      result_def_def insert_eval)

lemma seed_fee_run:
  "d ''fee'' = Some (new_table fee_def) \<Longrightarrow>
   d ''admission'' = Some (seeded_admission now) \<Longrightarrow>
   exec now d seed_fee = Inr (d(''fee'' \<mapsto> seeded_fee now))"
  by (simp add: seed_fee_def seeded_fee_def seeded_admission_def fee_def_def insert_eval)

lemma seed_run: "run_script now schema_db seed_script = (seeded_db now, None)"
  by (simp add: seed_script_def seeded_db_def seed_courses_run seed_exams_run
      seed_registrations_run seed_admission_run seed_student_run seed_result_run seed_fee_run)


subsection \<open>Reachable states\<close>

lemma has_schema_schema_db: "has_schema schema_db"
  by (simp add: has_schema_def schema_tables_def)

lemma reachable_store_ok: "reachable d \<Longrightarrow> store_ok d \<and> has_schema d"
proof (induction rule: reachable.induct)
  case (created now)
  show ?case
    using run_script_store_ok [OF store_ok_empty, of now schema_script]
    by (simp add: schema_run has_schema_schema_db)
next
  case (stepped d now s d')
  then show ?case
    by (blast intro: exec_store_ok exec_has_schema)
qed

lemma reachable_run_script:
  "reachable d \<Longrightarrow> run_script now d ss = (d', None) \<Longrightarrow> reachable d'"
  by (induction ss arbitrary: d) (auto split: sum.splits intro: reachable.stepped)

lemma reachable_schema_db: "reachable schema_db"
  using reachable.created [of 0] by (simp add: schema_run)

lemma reachable_seeded_db: "reachable (seeded_db now)"
  using reachable_schema_db seed_run by (rule reachable_run_script)

lemma run_script_append:
  "run_script now d (ss @ ss') =
   (case run_script now d ss of (d', None) \<Rightarrow> run_script now d' ss' | (d', Some e) \<Rightarrow> (d', Some e))"
  by (induction ss arbitrary: d) (auto split: sum.splits)

subsection \<open>Schema creation\<close>

lemma exec_create_exists: "exec_create d td = Inr d' \<Longrightarrow> d' (td_name td) \<noteq> None"
  by (auto simp: exec_create_def split: option.splits if_splits)

lemma run_script_keeps_table:
  "run_script now d ss = (d', None) \<Longrightarrow> d n \<noteq> None \<Longrightarrow> d' n \<noteq> None"
proof (induction ss arbitrary: d)
  case Nil
  then show ?case by simp
next
  case (Cons s ss)
  from Cons.prems(1) obtain d1 where
    s: "exec now d s = Inr d1" and ss: "run_script now d1 ss = (d', None)"
    by (auto split: sum.splits)
  from Cons.prems(2) obtain t where "d n = Some t" by blast
  with s have "d1 n \<noteq> None"
    by (auto dest: exec_keeps_def)
  with ss show ?case by (rule Cons.IH)
qed

lemma create_all_exist:
  "run_script now d (map CreateTableIfNotExists tds) = (d', None) \<Longrightarrow>
   td \<in> set tds \<Longrightarrow> d' (td_name td) \<noteq> None"
proof (induction tds arbitrary: d)
  case Nil
  then show ?case by simp
next
  case (Cons x xs)
  from Cons.prems(1) obtain d1 where
    x: "exec_create d x = Inr d1" and
    xs: "run_script now d1 (map CreateTableIfNotExists xs) = (d', None)"
    by (auto split: sum.splits)
  show ?case
  proof (cases "td = x")
    case True
    with x have "d1 (td_name td) \<noteq> None"
      by (simp add: exec_create_exists)
    with xs show ?thesis by (rule run_script_keeps_table)
  next
    case False
    with Cons.prems(2) have "td \<in> set xs" by simp
    with xs show ?thesis by (rule Cons.IH)
  qed
qed

lemma create_again_noop:
  "\<forall>td \<in> set tds. d (td_name td) \<noteq> None \<Longrightarrow>
   run_script now d (map CreateTableIfNotExists tds) = (d, None)"
  by (induction tds) (auto simp: exec_create_def split: option.splits)

text \<open>
  C2, as the script has it. The script creates nine tables, not eight (\<open>activity\<close> and
  \<open>social_activity\<close> are two tables). Once it has run without error, from any database,
  all nine tables exist, and running it again on the database it left, or on any later
  database that still has the nine tables, raises no error and returns the very same
  database: every table is unchanged.
\<close>

theorem schema_script_idempotent:
  assumes "run_script now d0 schema_script = (d1, None)"
  shows "length schema_script = 9 \<and>
    (\<forall>td \<in> set schema_tables. d1 (td_name td) \<noteq> None) \<and>
    run_script now' d1 schema_script = (d1, None) \<and>
    (\<forall>d2. (\<forall>td \<in> set schema_tables. d2 (td_name td) \<noteq> None) \<longrightarrow>
       run_script now' d2 schema_script = (d2, None))"
proof -
  have ex: "\<forall>td \<in> set schema_tables. d1 (td_name td) \<noteq> None"
    using create_all_exist [OF assms [unfolded schema_script_def]] by blast
  have again: "run_script now' d2 schema_script = (d2, None)"
    if "\<forall>td \<in> set schema_tables. d2 (td_name td) \<noteq> None" for d2
    using that unfolding schema_script_def by (rule create_again_noop)
  have "length schema_script = 9"
    by (simp add: schema_script_def schema_tables_def)
  with ex again show ?thesis by blast
qed

theorem schema_script_idempotent_witness:
  "run_script 0 empty_db schema_script = (schema_db, None) \<and>
   schema_db ''social_activity'' \<noteq> None \<and>
   run_script 1 schema_db schema_script = (schema_db, None)"
  using schema_script_idempotent [where now' = 1, OF schema_run [of 0]]
  by (simp add: schema_run)

text \<open>
  The count in C2 as it is worded fails: the schema script has nine
  \<open>CREATE TABLE\<close> statements, for nine different table names.
\<close>

theorem schema_has_nine_tables:
  "length schema_script = 9 \<and> distinct (map td_name schema_tables) \<and>
   td_name (schema_tables ! 4) = ''activity'' \<and>
   td_name (schema_tables ! 8) = ''social_activity''"
  by (simp add: schema_script_def schema_tables_def)

subsection \<open>The seed data\<close>

lemma seeded_db_tables [simp]:
  "seeded_db now ''registration'' = Some (seeded_registration now)"
  "seeded_db now ''admission'' = Some (seeded_admission now)"
  "seeded_db now ''student'' = Some (seeded_student now)"
  "seeded_db now ''course'' = Some (seeded_course now)"
  "seeded_db now ''exam'' = Some (seeded_exam now)"
  "seeded_db now ''result'' = Some (seeded_result now)"
  "seeded_db now ''fee'' = Some (seeded_fee now)"
  by (simp_all add: seeded_db_def)

lemma seeded_counts:
  "row_count (seeded_db now) ''registration'' = 2"
  "row_count (seeded_db now) ''course'' = 7"
  by (simp_all add: row_count_def seeded_registration_def seeded_course_def)

lemma seeded_keys:
  "column_of (seeded_db now) ''registration'' ''id'' = [VInt 1, VInt 2]"
  "column_of (seeded_db now) ''admission'' ''admission_id'' = [VInt 1]"
  "column_of (seeded_db now) ''student'' ''student_id'' = [VInt 1]"
  "column_of (seeded_db now) ''exam'' ''exam_id'' = map VInt [1, 2, 3, 4, 5, 6, 7]"
  by (simp_all add: column_of_def rows_of_def row_val_def seeded_registration_def
      seeded_admission_def seeded_student_def seeded_exam_def)

lemma seeded_refs:
  "column_of (seeded_db now) ''admission'' ''registration_id'' = [VInt 2]"
  "column_of (seeded_db now) ''student'' ''admission_id'' = [VInt 1]"
  "column_of (seeded_db now) ''result'' ''student_id'' = [VInt 1]"
  "column_of (seeded_db now) ''result'' ''exam_id'' = [VInt 1]"
  "column_of (seeded_db now) ''fee'' ''admission_id'' = [VInt 1]"
  by (simp_all add: column_of_def rows_of_def row_val_def seeded_admission_def
      seeded_student_def seeded_result_def seeded_fee_def)

text \<open>
  C3. On the empty database the schema script runs without error, and the seed script
  then runs without error: each of its inserts succeeds. Afterwards \<open>registration\<close> has
  2 rows and \<open>course\<close> has 7, and each foreign-key value written in the script
  (\<open>admission.registration_id = 2\<close>, \<open>student.admission_id = 1\<close>,
  \<open>result.student_id = 1\<close>, \<open>result.exam_id = 1\<close>, \<open>fee.admission_id = 1\<close>) is a key
  that the script generated before.
\<close>

theorem seed_script_populates:
  "run_script now empty_db schema_script = (schema_db, None) \<and>
   run_script now' schema_db seed_script = (seeded_db now', None) \<and>
   row_count (seeded_db now') ''registration'' = 2 \<and>
   row_count (seeded_db now') ''course'' = 7 \<and>
   set (column_of (seeded_db now') ''admission'' ''registration_id'')
     \<subseteq> set (column_of (seeded_db now') ''registration'' ''id'') \<and>
   set (column_of (seeded_db now') ''student'' ''admission_id'')
     \<subseteq> set (column_of (seeded_db now') ''admission'' ''admission_id'') \<and>
   set (column_of (seeded_db now') ''result'' ''student_id'')
     \<subseteq> set (column_of (seeded_db now') ''student'' ''student_id'') \<and>
   set (column_of (seeded_db now') ''result'' ''exam_id'')
     \<subseteq> set (column_of (seeded_db now') ''exam'' ''exam_id'') \<and>
   set (column_of (seeded_db now') ''fee'' ''admission_id'')
     \<subseteq> set (column_of (seeded_db now') ''admission'' ''admission_id'')"
  by (simp add: schema_run seed_run seeded_counts seeded_keys seeded_refs)

theorem seed_script_populates_witness:
  "run_script 0 empty_db (schema_script @ seed_script) = (seeded_db 0, None) \<and>
   row_count (seeded_db 0) ''registration'' = 2 \<and>
   row_count (seeded_db 0) ''course'' = 7 \<and>
   column_of (seeded_db 0) ''admission'' ''registration_id'' = [VInt 2] \<and>
   column_of (seeded_db 0) ''registration'' ''id'' = [VInt 1, VInt 2]"
  using seed_script_populates [of 0 0]
  by (simp add: run_script_append seeded_keys seeded_refs)

lemma rerun_courses:
  "exec now' (seeded_db now) seed_courses
   = Inl (DuplicateEntry ''course'' ''course_code'' (VStr ''BBA''))"
  by (simp add: seed_courses_def seeded_course_def course_def_def insert_eval)

lemma rerun_registrations:
  "exec now' (seeded_db now) seed_registrations
   = Inl (DuplicateEntry ''registration'' ''username'' (VStr ''admin''))"
  by (simp add: seed_registrations_def seeded_registration_def registration_def_def insert_eval)

lemma rerun_script:
  "run_script now' (seeded_db now) seed_script
   = (seeded_db now, Some (DuplicateEntry ''course'' ''course_code'' (VStr ''BBA'')))"
  by (simp add: seed_script_def rerun_courses)

text \<open>
  C4, as the scripts have it. The seed script, run again on the database it has
  seeded, fails at its first statement, the insert into \<open>course\<close>, on the unique column
  \<open>course.course_code\<close> (duplicate \<open>BBA\<close>). The script stops there: the database is
  unchanged, no row is duplicated, and the insert into \<open>registration\<close> is not reached.
  That insert, run on its own on the seeded database, is rejected on
  \<open>registration.username\<close> (duplicate \<open>admin\<close>).
\<close>

theorem seed_rerun_fails:
  "run_script now' (seeded_db now) seed_script
     = (seeded_db now, Some (DuplicateEntry ''course'' ''course_code'' (VStr ''BBA''))) \<and>
   hd seed_script = seed_courses \<and>
   run_script now' (seeded_db now) [seed_registrations]
     = (seeded_db now, Some (DuplicateEntry ''registration'' ''username'' (VStr ''admin'')))"
  by (simp add: rerun_script rerun_registrations) (simp add: seed_script_def)

theorem seed_rerun_fails_witness:
  "run_script 0 empty_db (schema_script @ seed_script) = (seeded_db 0, None) \<and>
   snd (run_script 1 (seeded_db 0) seed_script)
     = Some (DuplicateEntry ''course'' ''course_code'' (VStr ''BBA'')) \<and>
   fst (run_script 1 (seeded_db 0) seed_script) = seeded_db 0"
  using seed_rerun_fails [of 1 0]
  by (simp add: run_script_append schema_run seed_run)

text \<open>
  C4 as it is worded fails: the error that stops the rerun is not a violation of
  \<open>registration.username\<close>.
\<close>

theorem seed_rerun_not_username:
  "run_script 0 empty_db (schema_script @ seed_script) = (seeded_db 0, None) \<and>
   snd (run_script 1 (seeded_db 0) seed_script)
     \<noteq> Some (DuplicateEntry ''registration'' ''username'' (VStr ''admin'')) \<and>
   snd (run_script 1 (seeded_db 0) seed_script)
     = Some (DuplicateEntry ''course'' ''course_code'' (VStr ''BBA''))"
  by (simp add: run_script_append schema_run seed_run rerun_script)


subsection \<open>Unique columns and foreign keys in reachable states\<close>

lemma column_of_table: "d tn = Some t \<Longrightarrow> column_of d tn c = col_vals t c"
  by (simp add: column_of_def rows_of_def col_vals_def)

lemma key_column_distinct:
  assumes "store_ok d" and "d tn = Some t" and "c \<in> set (td_cols (t_def t))"
    and "is_key c" and "is_notnull c"
  shows "distinct (col_vals t (col_name c)) \<and> VNull \<notin> set (col_vals t (col_name c))"
proof -
  from assms(1,2) have "tbl_ok t" by (rule store_ok_tbl)
  with assms(3-5) have
    d: "distinct (filter (\<lambda>v. v \<noteq> VNull) (col_vals t (col_name c)))" and
    n: "VNull \<notin> set (col_vals t (col_name c))"
    by (auto simp: tbl_ok_def)
  from n have "filter (\<lambda>v. v \<noteq> VNull) (col_vals t (col_name c)) = col_vals t (col_name c)"
    by (auto simp: filter_id_conv)
  with d n show ?thesis by simp
qed

lemma list_all2_pick: "list_all2 P xs ys \<Longrightarrow> x \<in> set xs \<Longrightarrow> \<exists>y \<in> set ys. P x y"
  by (induction rule: list_all2_induct) auto

lemma exec_insert_appended:
  assumes "exec_insert now d tn cols rows = Inr d'" and "d tn = Some t" and "vals \<in> set rows"
  obtains t' rs r a a' where
    "d' = d(tn \<mapsto> t')" "t_def t' = t_def t" "t_rows t' = t_rows t @ rs" "r \<in> set rs"
    "fill_row now (map_of (zip cols vals)) (td_cols (t_def t)) a = Inr (r, a')"
proof -
  from assms(1,2) obtain t' where
    ins: "insert_rows now d tn t cols rows = Inr t'" and d': "d' = d(tn \<mapsto> t')"
    by (auto elim: exec_insert_Inr)
  from insert_rows_appends [OF ins] obtain rs where
    rs: "t_rows t' = t_rows t @ rs" and
    all: "list_all2 (\<lambda>vals r. \<exists>a a'. fill_row now (map_of (zip cols vals))
      (td_cols (t_def t)) a = Inr (r, a')) rows rs"
    by blast
  from list_all2_pick [OF all assms(3)] obtain r a a' where
    r: "r \<in> set rs" and
    fl: "fill_row now (map_of (zip cols vals)) (td_cols (t_def t)) a = Inr (r, a')"
    by blast
  show ?thesis
    by (rule that [OF d' insert_rows_def_same [OF ins] rs r fl])
qed

lemma stored_value:
  assumes "fill_row now g cs a = Inr (r, a')" and "distinct (map col_name cs)" and "c \<in> set cs"
    and "g (col_name c) = Some v" and "v \<noteq> VNull" and "\<not> is_autoinc c"
    and "\<forall>p s. col_type c \<noteq> TDecimal p s"
  shows "row_val r (col_name c) = v"
proof -
  from fill_row_val [OF assms(1-3)] obtain a1 a2 where
    "column_value now g c a1 = Inr (row_val r (col_name c), a2)"
    by blast
  then show ?thesis using assms(4-7) by (rule column_value_supplied)
qed

lemma duplicate_rejected:
  assumes ok: "store_ok d" and t: "d tn = Some t"
    and c: "c \<in> set (td_cols (t_def t))" "is_key c" "is_notnull c" "\<not> is_autoinc c"
      "\<forall>p s. col_type c \<noteq> TDecimal p s"
    and vals: "vals \<in> set rows" "map_of (zip cols vals) (col_name c) = Some v"
    and dup: "v \<in> set (col_vals t (col_name c))"
  shows "\<exists>e. exec_insert now d tn cols rows = Inl e"
proof (cases "exec_insert now d tn cols rows")
  case (Inl e)
  then show ?thesis by blast
next
  case (Inr d')
  from Inr t vals(1) obtain t' rs r a a' where
    d': "d' = d(tn \<mapsto> t')" and def: "t_def t' = t_def t" and
    rows: "t_rows t' = t_rows t @ rs" and r: "r \<in> set rs" and
    fill: "fill_row now (map_of (zip cols vals)) (td_cols (t_def t)) a = Inr (r, a')"
    by (rule exec_insert_appended)
  from ok t have "tbl_ok t" by (rule store_ok_tbl)
  then have names: "distinct (map col_name (td_cols (t_def t)))"
    by (simp add: tbl_ok_def)
  from key_column_distinct [OF ok t c(1-3)] dup have "v \<noteq> VNull" by auto
  then have "row_val r (col_name c) = v"
    using stored_value [OF fill names c(1) vals(2) _ c(4,5)] by simp
  with r have new: "v \<in> set (map (\<lambda>r. row_val r (col_name c)) rs)" by force
  from ok Inr have "store_ok d'" by (rule exec_insert_store_ok)
  moreover from d' have "d' tn = Some t'" by simp
  moreover from c(1) def have "c \<in> set (td_cols (t_def t'))" by simp
  ultimately have "distinct (col_vals t' (col_name c))"
    using c(2,3) by (blast dest: key_column_distinct)
  with rows have "distinct (col_vals t (col_name c) @ map (\<lambda>r. row_val r (col_name c)) rs)"
    by (simp add: col_vals_def)
  with dup new show ?thesis by auto
qed

lemma dangling_rejected:
  assumes ok: "store_ok d" and t: "d tn = Some t"
    and fk: "fk \<in> set (td_fks (t_def t))" "fk_table fk \<noteq> tn"
    and c: "c \<in> set (td_cols (t_def t))" "col_name c = fk_col fk" "\<not> is_autoinc c"
      "\<forall>p s. col_type c \<noteq> TDecimal p s"
    and vals: "vals \<in> set rows" "map_of (zip cols vals) (fk_col fk) = Some v" "v \<noteq> VNull"
    and dangling: "v \<notin> set (column_of d (fk_table fk) (fk_ref fk))"
  shows "\<exists>e. exec_insert now d tn cols rows = Inl e"
proof (cases "exec_insert now d tn cols rows")
  case (Inl e)
  then show ?thesis by blast
next
  case (Inr d')
  from Inr t vals(1) obtain t' rs r a a' where
    d': "d' = d(tn \<mapsto> t')" and def: "t_def t' = t_def t" and
    rows: "t_rows t' = t_rows t @ rs" and r: "r \<in> set rs" and
    fill: "fill_row now (map_of (zip cols vals)) (td_cols (t_def t)) a = Inr (r, a')"
    by (rule exec_insert_appended)
  from ok t have "tbl_ok t" by (rule store_ok_tbl)
  then have names: "distinct (map col_name (td_cols (t_def t)))"
    by (simp add: tbl_ok_def)
  from vals(2) c(2) have "map_of (zip cols vals) (col_name c) = Some v" by simp
  from stored_value [OF fill names c(1) this vals(3) c(3,4)] c(2)
  have stored: "row_val r (fk_col fk) = v" by simp
  from ok Inr have "store_ok d'" by (rule exec_insert_store_ok)
  moreover from d' have "d' tn = Some t'" by simp
  moreover from fk(1) def have "fk \<in> set (td_fks (t_def t'))" by simp
  moreover from r rows have "r \<in> set (t_rows t')" by simp
  ultimately have "fk_holds d' r fk" by (rule store_ok_fk)
  with stored vals(3) obtain u where
    "d' (fk_table fk) = Some u" "v \<in> set (col_vals u (fk_ref fk))"
    by (auto simp: fk_holds_def split: option.splits)
  with d' fk(2) have "v \<in> set (column_of d (fk_table fk) (fk_ref fk))"
    by (simp add: column_of_table)
  with dangling show ?thesis by simp
qed

lemma store_fk_rows:
  assumes "store_ok d" and "d tn = Some t" and "fk \<in> set (td_fks (t_def t))"
    and "r \<in> set (rows_of d tn)"
  shows "row_val r (fk_col fk) = VNull \<or>
    row_val r (fk_col fk) \<in> set (column_of d (fk_table fk) (fk_ref fk))"
proof -
  from assms(2,4) have "r \<in> set (t_rows t)" by (simp add: rows_of_def)
  with assms(1-3) have "fk_holds d r fk" by (rule store_ok_fk)
  then show ?thesis
    by (auto simp: fk_holds_def column_of_table split: option.splits)
qed

lemma has_schema_tables:
  assumes "has_schema d"
  obtains treg tadm tstu where
    "d ''registration'' = Some treg" "t_def treg = registration_def"
    "d ''admission'' = Some tadm" "t_def tadm = admission_def"
    "d ''student'' = Some tstu" "t_def tstu = student_def"
  using assms unfolding has_schema_def schema_tables_def
  by (metis list.set_intros(1) list.set_intros(2) td_names(1) td_names(2) td_names(3))

lemma run_one: "run_script now d [s] = (case exec now d s of Inl e \<Rightarrow> (d, Some e) | Inr d' \<Rightarrow> (d', None))"
  by (simp split: sum.splits)

lemma unique_columns:
  "Column ''username'' (TVarchar 50) [Unique, NotNull] \<in> set (td_cols registration_def)"
  "Column ''email_id'' (TVarchar 100) [Unique, NotNull] \<in> set (td_cols registration_def)"
  "Column ''aadhar_no'' (TVarchar 12) [Unique, NotNull] \<in> set (td_cols admission_def)"
  by (simp_all add: registration_def_def admission_def_def)

text \<open>
  C5. In every reachable state the values of \<open>admission.aadhar_no\<close>, of
  \<open>registration.username\<close> and of \<open>registration.email_id\<close> are pairwise distinct. An
  insert statement in which some row gives one of these columns a value the column
  already holds is rejected with an error, and the database, so the table, is unchanged.
\<close>

theorem unique_columns_enforced:
  assumes "reachable d"
  shows "distinct (column_of d ''admission'' ''aadhar_no'') \<and>
    distinct (column_of d ''registration'' ''username'') \<and>
    distinct (column_of d ''registration'' ''email_id'') \<and>
    (\<forall>now tn c cols rows vals v.
       (tn, c) \<in> {(''admission'', ''aadhar_no''), (''registration'', ''username''),
                  (''registration'', ''email_id'')} \<longrightarrow>
       vals \<in> set rows \<longrightarrow> map_of (zip cols vals) c = Some v \<longrightarrow>
       v \<in> set (column_of d tn c) \<longrightarrow>
       (\<exists>e. run_script now d [InsertInto tn cols rows] = (d, Some e)))"
proof -
  from assms have ok: "store_ok d" and sch: "has_schema d"
    by (simp_all add: reachable_store_ok)
  from sch obtain treg tadm where
    reg: "d ''registration'' = Some treg" "t_def treg = registration_def" and
    adm: "d ''admission'' = Some tadm" "t_def tadm = admission_def"
    by (rule has_schema_tables)
  have col_reg: "column_of d ''registration'' c = col_vals treg c" for c
    using reg(1) by (rule column_of_table)
  have col_adm: "column_of d ''admission'' c = col_vals tadm c" for c
    using adm(1) by (rule column_of_table)
  let ?user = "Column ''username'' (TVarchar 50) [Unique, NotNull]"
  let ?mail = "Column ''email_id'' (TVarchar 100) [Unique, NotNull]"
  let ?aadhar = "Column ''aadhar_no'' (TVarchar 12) [Unique, NotNull]"
  have attrs: "is_key c \<and> is_notnull c \<and> \<not> is_autoinc c \<and> (\<forall>p s. col_type c \<noteq> TDecimal p s)"
    if "c \<in> {?user, ?mail, ?aadhar}" for c
    using that by (auto simp: is_key_def is_notnull_def is_autoinc_def)
  have d1: "distinct (column_of d ''admission'' ''aadhar_no'')"
    using key_column_distinct [OF ok adm(1), of ?aadhar] attrs [of ?aadhar] unique_columns(3)
    by (simp add: adm(2) col_adm)
  have d2: "distinct (column_of d ''registration'' ''username'')"
    using key_column_distinct [OF ok reg(1), of ?user] attrs [of ?user] unique_columns(1)
    by (simp add: reg(2) col_reg)
  have d3: "distinct (column_of d ''registration'' ''email_id'')"
    using key_column_distinct [OF ok reg(1), of ?mail] attrs [of ?mail] unique_columns(2)
    by (simp add: reg(2) col_reg)
  have rej: "\<exists>e. run_script now d [InsertInto tn cols rows] = (d, Some e)"
    if sel: "(tn, c) \<in> {(''admission'', ''aadhar_no''), (''registration'', ''username''),
        (''registration'', ''email_id'')}"
      and vals: "vals \<in> set rows" "map_of (zip cols vals) c = Some v"
      and dup: "v \<in> set (column_of d tn c)"
    for now tn c cols rows vals v
  proof -
    from sel consider
      (a) "tn = ''admission''" "c = ''aadhar_no''"
      | (u) "tn = ''registration''" "c = ''username''"
      | (m) "tn = ''registration''" "c = ''email_id''"
      by auto
    then have "\<exists>e. exec_insert now d tn cols rows = Inl e"
    proof cases
      case a
      with vals dup show ?thesis
        using duplicate_rejected [OF ok adm(1), of ?aadhar vals rows cols v now]
          attrs [of ?aadhar] unique_columns(3)
        by (simp add: adm(2) col_adm)
    next
      case u
      with vals dup show ?thesis
        using duplicate_rejected [OF ok reg(1), of ?user vals rows cols v now]
          attrs [of ?user] unique_columns(1)
        by (simp add: reg(2) col_reg)
    next
      case m
      with vals dup show ?thesis
        using duplicate_rejected [OF ok reg(1), of ?mail vals rows cols v now]
          attrs [of ?mail] unique_columns(2)
        by (simp add: reg(2) col_reg)
    qed
    then show ?thesis by (auto simp: run_one)
  qed
  from d1 d2 d3 rej show ?thesis by blast
qed

theorem unique_columns_enforced_witness:
  "reachable (seeded_db 0) \<and>
   column_of (seeded_db 0) ''registration'' ''username'' = [VStr ''admin'', VStr ''student1''] \<and>
   distinct (column_of (seeded_db 0) ''registration'' ''username'') \<and>
   distinct (column_of (seeded_db 0) ''registration'' ''email_id'') \<and>
   distinct (column_of (seeded_db 0) ''admission'' ''aadhar_no'') \<and>
   (\<exists>e. run_script 1 (seeded_db 0) [repeat_admin] = (seeded_db 0, Some e))"
proof -
  have col: "column_of (seeded_db 0) ''registration'' ''username''
      = [VStr ''admin'', VStr ''student1'']"
    by (simp add: column_of_def rows_of_def row_val_def seeded_registration_def)
  have "\<exists>e. run_script 1 (seeded_db 0)
      [InsertInto ''registration'' [''username'', ''password'', ''email_id'', ''mobile_no'']
        [[VStr ''admin'', VStr ''secret'', VStr ''other@skylink.edu'', VStr ''9000000000'']]]
      = (seeded_db 0, Some e)"
    using unique_columns_enforced [OF reachable_seeded_db, of 0, THEN conjunct2, THEN conjunct2,
        THEN conjunct2, rule_format, of "''registration''" "''username''"
        "[VStr ''admin'', VStr ''secret'', VStr ''other@skylink.edu'', VStr ''9000000000'']"
        "[[VStr ''admin'', VStr ''secret'', VStr ''other@skylink.edu'', VStr ''9000000000'']]"
        "[''username'', ''password'', ''email_id'', ''mobile_no'']" "VStr ''admin''" 1]
    by (simp add: col)
  with unique_columns_enforced [OF reachable_seeded_db, of 0] col show ?thesis
    by (simp add: repeat_admin_def reachable_seeded_db)
qed

text \<open>
  C9, as the schema has it. \<open>student.admission_id\<close> is a nullable foreign key. In every
  reachable state each student row whose \<open>admission_id\<close> is not \<open>NULL\<close> references an
  existing admission row, and an insert of a student row with an \<open>admission_id\<close> that no
  admission row has is rejected and changes nothing.
\<close>

theorem student_admission_reference:
  assumes "reachable d"
  shows "(\<forall>r \<in> set (rows_of d ''student'').
       row_val r ''admission_id'' = VNull \<or>
       row_val r ''admission_id'' \<in> set (column_of d ''admission'' ''admission_id'')) \<and>
    (\<forall>now cols rows vals v.
       vals \<in> set rows \<longrightarrow> map_of (zip cols vals) ''admission_id'' = Some v \<longrightarrow> v \<noteq> VNull \<longrightarrow>
       v \<notin> set (column_of d ''admission'' ''admission_id'') \<longrightarrow>
       (\<exists>e. run_script now d [InsertInto ''student'' cols rows] = (d, Some e)))"
proof -
  from assms have ok: "store_ok d" and sch: "has_schema d"
    by (simp_all add: reachable_store_ok)
  from sch obtain tstu where
    stu: "d ''student'' = Some tstu" "t_def tstu = student_def"
    by (rule has_schema_tables)
  let ?fk = "ForeignKey ''admission_id'' ''admission'' ''admission_id''"
  let ?c = "Column ''admission_id'' TInt []"
  have fk: "?fk \<in> set (td_fks (t_def tstu))" and c: "?c \<in> set (td_cols (t_def tstu))"
    by (simp_all add: stu(2) student_def_def)
  have refs: "row_val r ''admission_id'' = VNull \<or>
      row_val r ''admission_id'' \<in> set (column_of d ''admission'' ''admission_id'')"
    if "r \<in> set (rows_of d ''student'')" for r
    using store_fk_rows [OF ok stu(1) fk that] by simp
  have rej: "\<exists>e. run_script now d [InsertInto ''student'' cols rows] = (d, Some e)"
    if "vals \<in> set rows" "map_of (zip cols vals) ''admission_id'' = Some v" "v \<noteq> VNull"
      "v \<notin> set (column_of d ''admission'' ''admission_id'')"
    for now cols rows vals v
  proof -
    have "\<exists>e. exec_insert now d ''student'' cols rows = Inl e"
      using dangling_rejected [OF ok stu(1) fk _ c, of vals rows cols v now] that
      by (simp add: is_autoinc_def)
    then show ?thesis by (auto simp: run_one)
  qed
  from refs rej show ?thesis by blast
qed

theorem student_admission_reference_witness:
  "reachable (seeded_db 0) \<and>
   column_of (seeded_db 0) ''student'' ''admission_id'' = [VInt 1] \<and>
   column_of (seeded_db 0) ''admission'' ''admission_id'' = [VInt 1] \<and>
   (\<exists>e. run_script 1 (seeded_db 0) [dangling_student] = (seeded_db 0, Some e))"
proof -
  have "\<exists>e. run_script 1 (seeded_db 0)
      [InsertInto ''student'' [''admission_id'', ''student_name'', ''course_name'']
        [[VInt 99, VStr ''Jane Roe'', VStr ''Data Science'']]] = (seeded_db 0, Some e)"
    using student_admission_reference [OF reachable_seeded_db, of 0, THEN conjunct2,
        rule_format, of "[VInt 99, VStr ''Jane Roe'', VStr ''Data Science'']"
        "[[VInt 99, VStr ''Jane Roe'', VStr ''Data Science'']]"
        "[''admission_id'', ''student_name'', ''course_name'']" "VInt 99" 1]
    by (simp add: seeded_keys)
  then show ?thesis
    by (simp add: dangling_student_def reachable_seeded_db seeded_keys seeded_refs)
qed

text \<open>
  C9 as it is worded fails: right after the schema script, a student row can be
  inserted without an \<open>admission_id\<close>. The insert succeeds, the row's \<open>admission_id\<close> is
  \<open>NULL\<close>, and there is no admission row at all.
\<close>

theorem student_without_admission:
  "snd (run_script 0 empty_db (schema_script @ [orphan_student])) = None \<and>
   column_of (fst (run_script 0 empty_db (schema_script @ [orphan_student])))
     ''student'' ''admission_id'' = [VNull] \<and>
   rows_of (fst (run_script 0 empty_db (schema_script @ [orphan_student]))) ''admission'' = []"
  by (simp add: run_script_append schema_run orphan_student_def student_def_def
      column_of_def rows_of_def insert_eval)


section \<open>Properties of the page script\<close>

subsection \<open>Writing a style or a flag leaves the tree and the selectors alone\<close>

lemma set_display_simps [simp]:
  "document (set_display r c s) = document s"
  "detached (set_display r c s) = detached s"
  "timers (set_display r c s) = timers s"
  "clock (set_display r c s) = clock s"
  "scrolled (set_display r c s) = scrolled s"
  "attribute (set_display r c s) x a = attribute s x a"
  "tag (elements (set_display r c s) x) = tag (elements s x)"
  "classes (elements (set_display r c s) x) = classes (elements s x)"
  "display (elements (set_display r c s) x) = (if x = r then c else display (elements s x))"
  by (simp_all add: set_display_def attribute_def)

lemma matches_set_display [simp]: "matches (set_display r c s) sel x = matches s sel x"
  by (cases sel) simp_all

lemma query_set_display [simp]:
  "query_all (set_display r c s) sel = query_all s sel"
  "query_first (set_display r c s) sel = query_first s sel"
  "get_element_by_id (set_display r c s) i = get_element_by_id s i"
  by (simp_all add: query_all_def query_first_def get_element_by_id_def cong: filter_cong)

lemma query_first_None: "query_first s sel = None \<longleftrightarrow> query_all s sel = []"
  by (simp add: query_first_def split: list.splits)

lemma no_class_no_first_child:
  "query_all s (ByClass c) = [] \<Longrightarrow> query_first s (ByClassFirstChild c) = None"
  by (auto simp: query_first_None query_all_def filter_empty_conv)


subsection \<open>The panel toggles\<close>

lemma showRegister_throws:
  "get_element_by_id s ''register-form'' = None \<or> query_first s (ByClassFirstChild ''auth-card'') = None
   \<Longrightarrow> \<exists>s'. showRegister s = Threw TypeError s'"
  by (auto simp: showRegister_def Let_def split: option.splits)

lemma showLogin_throws:
  "get_element_by_id s ''register-form'' = None \<or> query_first s (ByClassFirstChild ''auth-card'') = None
   \<Longrightarrow> \<exists>s'. showLogin s = Threw TypeError s'"
  by (auto simp: showLogin_def Let_def split: option.splits)

lemma show_panels_ok:
  assumes "query_first s (ByClassFirstChild ''auth-card'') = Some panel"
    and "get_element_by_id s ''register-form'' = Some form"
  shows "showRegister s = Returned () (set_display form ''block'' (set_display panel ''none'' s))"
    and "showLogin s = Returned () (set_display form ''none'' (set_display panel ''block'' s))"
  using assms by (simp_all add: showRegister_def showLogin_def)

text \<open>
  C8. When no element has the id \<open>register-form\<close>, or no element has the class
  \<open>auth-card\<close>, both \<open>showRegister\<close> and \<open>showLogin\<close> throw a \<open>TypeError\<close>: they use
  what the lookup returns without a check. The two guarded lookups do nothing when
  they find no element: the anchor listener returns without scrolling and without an
  error when its selector matches nothing, and the submit listener leaves the page as
  it is when the form has no submit button.
\<close>

theorem show_panels_unguarded:
  "(get_element_by_id s ''register-form'' = None \<or> query_all s (ByClass ''auth-card'') = [] \<longrightarrow>
      (\<exists>s'. showRegister s = Threw TypeError s') \<and> (\<exists>s'. showLogin s = Threw TypeError s')) \<and>
   (\<forall>parse anchor e sel.
      parse (href_of s anchor) = Some sel \<longrightarrow> query_first s sel = None \<longrightarrow>
      anchor_click parse anchor e s = Returned () (prevent_default e, s)) \<and>
   (\<forall>form. query_first_in s form (ByTagAttrIs ''button'' ''type'' ''submit'') = None \<longrightarrow>
      form_submit form s = s)"
proof -
  have "(\<exists>s'. showRegister s = Threw TypeError s') \<and> (\<exists>s'. showLogin s = Threw TypeError s')"
    if "get_element_by_id s ''register-form'' = None \<or> query_all s (ByClass ''auth-card'') = []"
    using that showRegister_throws [of s] showLogin_throws [of s]
    by (auto dest: no_class_no_first_child)
  moreover have "anchor_click parse anchor e s = Returned () (prevent_default e, s)"
    if "parse (href_of s anchor) = Some sel" "query_first s sel = None" for parse anchor e sel
    using that by (simp add: anchor_click_def href_of_def Let_def)
  moreover have "form_submit form s = s"
    if "query_first_in s form (ByTagAttrIs ''button'' ''type'' ''submit'') = None" for form
    using that by (simp add: form_submit_def)
  ultimately show ?thesis by blast
qed

lemmas page_eval =
  login_page_def bare_page_def login_elements_def blank_def query_all_def query_first_def
  query_all_in_def query_first_in_def get_element_by_id_def children_of_def attribute_def
  ascii_lower_def

theorem show_panels_unguarded_witness:
  "get_element_by_id bare_page ''register-form'' = None \<and>
   (\<exists>s'. showRegister bare_page = Threw TypeError s') \<and>
   (\<exists>s'. showLogin bare_page = Threw TypeError s') \<and>
   anchor_click fragment_selector 17 \<lparr>default_prevented = False\<rparr> bare_page
     = Returned () (\<lparr>default_prevented = True\<rparr>, bare_page) \<and>
   form_submit 15 login_page = login_page"
proof -
  have a: "get_element_by_id bare_page ''register-form'' = None"
    by (simp add: page_eval)
  have b: "href_of bare_page 17 = ''#top''" "query_first bare_page (ById ''top'') = None"
    by (simp_all add: href_of_def page_eval)
  have c: "query_first_in login_page 15 (ByTagAttrIs ''button'' ''type'' ''submit'') = None"
    by (simp add: page_eval)
  from show_panels_unguarded [of bare_page] a
  have "(\<exists>s'. showRegister bare_page = Threw TypeError s') \<and>
      (\<exists>s'. showLogin bare_page = Threw TypeError s')"
    by simp
  moreover from show_panels_unguarded [of bare_page] b
  have "anchor_click fragment_selector 17 \<lparr>default_prevented = False\<rparr> bare_page
     = Returned () (\<lparr>default_prevented = True\<rparr>, bare_page)"
    by (simp add: prevent_default_def)
  moreover from show_panels_unguarded [of login_page] c
  have "form_submit 15 login_page = login_page"
    by simp
  ultimately show ?thesis using a by simp
qed


subsection \<open>The anchor listener\<close>

text \<open>
  C10. Whatever the href, and whether or not it selects an element, the listener
  cancels the event's default action first: the event is cancelled when the listener
  returns, and also when \<open>querySelector\<close> throws. \<open>scrollIntoView\<close> is called exactly
  when the href selects an element, once, on that element; when it selects none,
  the page is unchanged.
\<close>

theorem anchor_click_cancels:
  "fst (state_of (anchor_click parse anchor e s)) = prevent_default e \<and>
   default_prevented (prevent_default e) \<and>
   scrolled (snd (state_of (anchor_click parse anchor e s)))
     = scrolled s @ (case anchor_target parse s anchor of Some t \<Rightarrow> [t] | None \<Rightarrow> []) \<and>
   (anchor_target parse s anchor = None \<longrightarrow> snd (state_of (anchor_click parse anchor e s)) = s) \<and>
   (\<forall>t. anchor_target parse s anchor = Some t \<longrightarrow>
      anchor_click parse anchor e s = Returned () (prevent_default e, scroll_into_view t s))"
  by (auto simp: anchor_click_def anchor_target_def href_of_def Let_def prevent_default_def
      scroll_into_view_def split: option.splits)

theorem anchor_click_cancels_witness:
  "17 \<in> set (fragment_anchors login_page) \<and>
   anchor_target fragment_selector login_page 17 = None \<and>
   state_of (anchor_click fragment_selector 17 \<lparr>default_prevented = False\<rparr> login_page)
     = (\<lparr>default_prevented = True\<rparr>, login_page)"
proof -
  have a: "17 \<in> set (fragment_anchors login_page)"
    by (simp add: fragment_anchors_def page_eval)
  have b: "anchor_target fragment_selector login_page 17 = None"
    by (simp add: anchor_target_def href_of_def page_eval)
  from anchor_click_cancels [of fragment_selector 17 "\<lparr>default_prevented = False\<rparr>" login_page] b
  have "state_of (anchor_click fragment_selector 17 \<lparr>default_prevented = False\<rparr> login_page)
     = (\<lparr>default_prevented = True\<rparr>, login_page)"
    by (simp add: prevent_default_def prod_eq_iff)
  with a b show ?thesis by simp
qed


subsection \<open>validateForm\<close>

lemma set_border_color_simps [simp]:
  "document (set_border_color r c s) = document s"
  "detached (set_border_color r c s) = detached s"
  "timers (set_border_color r c s) = timers s"
  "clock (set_border_color r c s) = clock s"
  "fired (set_border_color r c s) = fired s"
  "scrolled (set_border_color r c s) = scrolled s"
  "el_value (elements (set_border_color r c s) x) = el_value (elements s x)"
  "border_color (elements (set_border_color r c s) x)
     = (if x = r then c else border_color (elements s x))"
  "x \<noteq> r \<Longrightarrow> elements (set_border_color r c s) x = elements s x"
  "(elements (set_border_color r c s) x)\<lparr>border_color := k\<rparr> = (elements s x)\<lparr>border_color := k\<rparr>"
  by (simp_all add: set_border_color_def)

text \<open>
  The loop over the inputs: the flag it returns, the colour each input ends with, and
  that it writes nothing but border colours.
\<close>

lemma validate_inputs_result:
  "validate_inputs inputs isValid s = (b, s') \<Longrightarrow>
   (b \<longleftrightarrow> isValid \<and> (\<forall>i \<in> set inputs. trim (el_value (elements s i)) \<noteq> [])) \<and>
   (\<forall>i \<in> set inputs. border_color (elements s' i)
      = (if trim (el_value (elements s i)) = [] then ''#dc3545'' else ''#28a745'')) \<and>
   (\<forall>r. r \<notin> set inputs \<longrightarrow> elements s' r = elements s r) \<and>
   (\<forall>r. (elements s' r)\<lparr>border_color := k\<rparr> = (elements s r)\<lparr>border_color := k\<rparr>) \<and>
   (\<forall>r. el_value (elements s' r) = el_value (elements s r)) \<and>
   document s' = document s \<and> detached s' = detached s \<and> timers s' = timers s \<and>
   clock s' = clock s \<and> fired s' = fired s \<and> scrolled s' = scrolled s"
proof (induction inputs arbitrary: isValid s)
  case Nil
  then show ?case by simp
next
  case (Cons i rest)
  let ?c = "if trim (el_value (elements s i)) = [] then ''#dc3545'' else ''#28a745''"
  let ?v = "isValid \<and> trim (el_value (elements s i)) \<noteq> []"
  from Cons.prems have step: "validate_inputs rest ?v (set_border_color i ?c s) = (b, s')"
    by (simp split: if_splits)
  note ih = Cons.IH [OF step]
  have colour: "border_color (elements s' j) =
      (if trim (el_value (elements s j)) = [] then ''#dc3545'' else ''#28a745'')"
    if "j \<in> set (i # rest)" for j
  proof (cases "j \<in> set rest")
    case True
    with ih show ?thesis by simp
  next
    case False
    with that have "j = i" by simp
    moreover from ih False have "elements s' j = elements (set_border_color i ?c s) j"
      by blast
    ultimately show ?thesis by simp
  qed
  have frame: "elements s' r = elements s r" if "r \<notin> set (i # rest)" for r
  proof -
    from that ih have "elements s' r = elements (set_border_color i ?c s) r"
      by simp
    with that show ?thesis by simp
  qed
  from ih have "(elements s' r)\<lparr>border_color := k\<rparr> = (elements s r)\<lparr>border_color := k\<rparr>" for r
    by simp
  moreover from ih have "b \<longleftrightarrow> isValid \<and> (\<forall>j \<in> set (i # rest). trim (el_value (elements s j)) \<noteq> [])"
    by auto
  moreover from ih have "el_value (elements s' r) = el_value (elements s r)" for r
    by simp
  moreover from ih have "document s' = document s \<and> detached s' = detached s \<and>
      timers s' = timers s \<and> clock s' = clock s \<and> fired s' = fired s \<and> scrolled s' = scrolled s"
    by simp
  ultimately show ?case using colour frame by blast
qed

text \<open>
  C1. For a form that exists, \<open>validateForm\<close> returns, and returns true exactly when
  the value of every required input of the form is non-empty after trimming. Every
  required input whose trimmed value is empty ends with the border colour \<open>#dc3545\<close>,
  every other required input with \<open>#28a745\<close>; no other element is touched, and nothing
  but border colours is written.
\<close>

theorem validateForm_marks_inputs:
  assumes "get_element_by_id s formId = Some form"
  shows "\<exists>b s'. validateForm formId s = Returned b s' \<and>
    (b \<longleftrightarrow> (\<forall>i \<in> set (required_inputs s form). trim (el_value (elements s i)) \<noteq> [])) \<and>
    (\<forall>i \<in> set (required_inputs s form). border_color (elements s' i)
       = (if trim (el_value (elements s i)) = [] then ''#dc3545'' else ''#28a745'')) \<and>
    (\<forall>r. r \<notin> set (required_inputs s form) \<longrightarrow> elements s' r = elements s r) \<and>
    (\<forall>r k. (elements s' r)\<lparr>border_color := k\<rparr> = (elements s r)\<lparr>border_color := k\<rparr>) \<and>
    document s' = document s"
proof -
  obtain b s' where
    run: "validate_inputs (required_inputs s form) True s = (b, s')"
    by (cases "validate_inputs (required_inputs s form) True s")
  with assms have "validateForm formId s = Returned b s'"
    by (simp add: validateForm_def required_inputs_def)
  moreover from validate_inputs_result [OF run] have
    "(b \<longleftrightarrow> (\<forall>i \<in> set (required_inputs s form). trim (el_value (elements s i)) \<noteq> []))"
    "\<forall>i \<in> set (required_inputs s form). border_color (elements s' i)
       = (if trim (el_value (elements s i)) = [] then ''#dc3545'' else ''#28a745'')"
    "\<forall>r. r \<notin> set (required_inputs s form) \<longrightarrow> elements s' r = elements s r"
    "document s' = document s"
    by simp_all
  moreover from validate_inputs_result [OF run] have
    "\<forall>r k. (elements s' r)\<lparr>border_color := k\<rparr> = (elements s r)\<lparr>border_color := k\<rparr>"
    by blast
  ultimately show ?thesis by blast
qed

lemma login_inputs: "required_inputs login_page 11 = [12, 13]"
  by (simp add: required_inputs_def page_eval)

lemma login_values:
  "trim (el_value (elements login_page 12)) = []"
  "trim (el_value (elements login_page 13)) = [97, 98]"
  by (simp_all add: trim_def is_space_def login_page_def login_elements_def blank_def)

lemma login_borders: "border_color (elements login_page r) = []"
  by (simp add: login_page_def login_elements_def blank_def)

text \<open>
  The scenario of the specification: a form with exactly two required inputs, one
  empty after trimming and one filled. \<open>validateForm\<close> returns false, the empty input
  ends red and the filled one green.
\<close>

theorem validateForm_marks_inputs_witness:
  "get_element_by_id login_page ''login'' = Some 11 \<and>
   required_inputs login_page 11 = [12, 13] \<and>
   (\<exists>s'. validateForm ''login'' login_page = Returned False s' \<and>
      border_color (elements s' 12) = ''#dc3545'' \<and>
      border_color (elements s' 13) = ''#28a745'' \<and>
      [r \<leftarrow> [10, 11, 12, 13, 14, 15, 16, 17]. border_color (elements s' r) = ''#dc3545''] = [12])"
proof -
  have form: "get_element_by_id login_page ''login'' = Some 11"
    by (simp add: page_eval)
  from validateForm_marks_inputs [OF form] obtain b s' where
    r: "validateForm ''login'' login_page = Returned b s'" and
    b: "b \<longleftrightarrow> (\<forall>i \<in> set (required_inputs login_page 11).
      trim (el_value (elements login_page i)) \<noteq> [])" and
    c: "\<forall>i \<in> set (required_inputs login_page 11). border_color (elements s' i)
       = (if trim (el_value (elements login_page i)) = [] then ''#dc3545'' else ''#28a745'')" and
    f: "\<forall>r. r \<notin> set (required_inputs login_page 11) \<longrightarrow> elements s' r = elements login_page r"
    by blast
  from b have "\<not> b"
    by (simp add: login_inputs login_values)
  moreover from c have "border_color (elements s' 12) = ''#dc3545''"
    "border_color (elements s' 13) = ''#28a745''"
    by (simp_all add: login_inputs login_values)
  moreover from f [unfolded login_inputs] have
    "border_color (elements s' r) = []" if "r \<in> {10, 11, 14, 15, 16, 17}" for r
    using that by (auto simp: login_borders)
  ultimately show ?thesis using r form login_inputs by auto
qed


subsection \<open>The timer loop, step by step\<close>

lemma advance_idle: "timers s = [] \<Longrightarrow> advance T s = s\<lparr>clock := max (clock s) T\<rparr>"
  by (simp add: advance.simps)

lemma advance_wait:
  "timers s = (due, f) # rest \<Longrightarrow> T < due \<Longrightarrow> advance T s = s\<lparr>clock := max (clock s) T\<rparr>"
  by (simp add: advance.simps)

lemma advance_fire:
  "timers s = (due, f) # rest \<Longrightarrow> due \<le> T \<Longrightarrow>
   advance T s = advance T (run_task f (s\<lparr>clock := max (clock s) due, timers := rest,
     fired := fired s @ [f]\<rparr>))"
  by (subst advance.simps) simp

subsection \<open>The submit button\<close>

lemma find_set_kids:
  "find_node r (set_kids r new f) = (if find_node r f = None then None else Some new)"
  by (induction r new f rule: set_kids.induct) (auto split: option.splits)

lemma children_after_set_text:
  "children_of (set_text_content r t s) r =
   (if children_of s r = None then None else Some (if t = [] then [] else [Text t]))"
  by (simp add: children_of_def set_text_content_def find_set_kids split: option.splits)

lemma text_after_set_text:
  "children_of s r \<noteq> None \<Longrightarrow> text_content (set_text_content r t s) r = t"
  by (simp add: text_content_def children_after_set_text)

lemma set_text_content_simps [simp]:
  "elements (set_text_content r t s) = elements s"
  "timers (set_text_content r t s) = timers s"
  "clock (set_text_content r t s) = clock s"
  by (simp_all add: set_text_content_def)

lemma same_tree:
  assumes "document s' = document s" and "detached s' = detached s"
  shows "children_of s' = children_of s" and "text_content s' = text_content s"
  using assms by (auto simp: children_of_def text_content_def fun_eq_iff split: option.splits)

lemma set_disabled_tree [simp]:
  "children_of (set_disabled r b s) = children_of s"
  "text_content (set_disabled r b s) = text_content s"
  by (rule same_tree; simp add: set_disabled_def)+

lemma set_disabled_simps [simp]:
  "timers (set_disabled r b s) = timers s"
  "clock (set_disabled r b s) = clock s"
  "disabled (elements (set_disabled r b s) x) = (if x = r then b else disabled (elements s x))"
  by (simp_all add: set_disabled_def)

lemma set_timeout_tree [simp]:
  "children_of (set_timeout f d s) = children_of s"
  "text_content (set_timeout f d s) = text_content s"
  by (rule same_tree; simp add: set_timeout_def)+

lemma set_timeout_simps [simp]:
  "elements (set_timeout f d s) = elements s"
  "clock (set_timeout f d s) = clock s"
  "timers (set_timeout f d s) = enqueue (clock s + d, f) (timers s)"
  by (simp_all add: set_timeout_def)

lemma clock_tree [simp]:
  "children_of (s\<lparr>clock := n\<rparr>) = children_of s"
  "text_content (s\<lparr>clock := n\<rparr>) = text_content s"
  "children_of (s\<lparr>clock := n, timers := q, fired := l\<rparr>) = children_of s"
  "text_content (s\<lparr>clock := n, timers := q, fired := l\<rparr>) = text_content s"
  by (rule same_tree; simp)+

lemma restore_result:
  assumes "children_of s b \<noteq> None"
  shows "text_content (run_task (RestoreButton b t) s) b = t"
    and "\<not> disabled (elements (run_task (RestoreButton b t) s) b)"
    and "timers (run_task (RestoreButton b t) s) = timers s"
  using assms by (simp_all add: text_after_set_text)

lemma showLoading_result:
  assumes "children_of s b \<noteq> None"
  shows "text_content (showLoading b s) b = ''Loading...''"
    and "disabled (elements (showLoading b s) b)"
    and "timers (showLoading b s) = enqueue (clock s + 2000, RestoreButton b (text_content s b)) (timers s)"
    and "children_of (showLoading b s) b \<noteq> None"
    and "clock (showLoading b s) = clock s"
  using assms by (simp_all add: showLoading_def Let_def text_after_set_text children_after_set_text)

text \<open>
  C7. For a button of the page, \<open>showLoading\<close> at once sets the text to \<open>Loading...\<close>
  and disables the button, and sets one timeout, due 2000 ms later, that carries the
  text the button had. Whenever that timeout fires, whatever the page has become by
  then, the button gets exactly that text back and is enabled: nothing about a form
  submission is read. With no other timeout pending, the button shows \<open>Loading...\<close> and
  is disabled at every time before 2000 ms, and has its original text and is enabled
  from 2000 ms on.
\<close>

theorem showLoading_then_restore:
  assumes "children_of s button \<noteq> None"
  shows "text_content (showLoading button s) button = ''Loading...'' \<and>
    disabled (elements (showLoading button s) button) \<and>
    timers (showLoading button s)
      = enqueue (clock s + 2000, RestoreButton button (text_content s button)) (timers s) \<and>
    (\<forall>s'. children_of s' button \<noteq> None \<longrightarrow>
       text_content (run_task (RestoreButton button (text_content s button)) s') button
         = text_content s button \<and>
       \<not> disabled (elements (run_task (RestoreButton button (text_content s button)) s') button)) \<and>
    (timers s = [] \<longrightarrow>
       (\<forall>T. T < clock s + 2000 \<longrightarrow>
          text_content (advance T (showLoading button s)) button = ''Loading...'' \<and>
          disabled (elements (advance T (showLoading button s)) button)) \<and>
       (\<forall>T. clock s + 2000 \<le> T \<longrightarrow>
          text_content (advance T (showLoading button s)) button = text_content s button \<and>
          \<not> disabled (elements (advance T (showLoading button s)) button) \<and>
          timers (advance T (showLoading button s)) = []))"
proof -
  let ?s1 = "showLoading button s"
  let ?f = "RestoreButton button (text_content s button)"
  note first = showLoading_result [OF assms]
  have later: "text_content (run_task ?f s') button = text_content s button \<and>
      \<not> disabled (elements (run_task ?f s') button)"
    if "children_of s' button \<noteq> None" for s'
    using restore_result [OF that] by simp
  have timed:
    "(\<forall>T. T < clock s + 2000 \<longrightarrow>
        text_content (advance T ?s1) button = ''Loading...'' \<and>
        disabled (elements (advance T ?s1) button)) \<and>
     (\<forall>T. clock s + 2000 \<le> T \<longrightarrow>
        text_content (advance T ?s1) button = text_content s button \<and>
        \<not> disabled (elements (advance T ?s1) button) \<and> timers (advance T ?s1) = [])"
    if empty: "timers s = []"
  proof -
    from first(3) empty have q: "timers ?s1 = [(clock s + 2000, ?f)]" by simp
    have early: "text_content (advance T ?s1) button = ''Loading...'' \<and>
        disabled (elements (advance T ?s1) button)"
      if "T < clock s + 2000" for T
      using advance_wait [OF q that] first(1,2) by simp
    have late: "text_content (advance T ?s1) button = text_content s button \<and>
        \<not> disabled (elements (advance T ?s1) button) \<and> timers (advance T ?s1) = []"
      if "clock s + 2000 \<le> T" for T
    proof -
      let ?s2 = "?s1\<lparr>clock := max (clock ?s1) (clock s + 2000), timers := [], fired := fired ?s1 @ [?f]\<rparr>"
      have present: "children_of ?s2 button \<noteq> None"
        using first(4) by simp
      have none: "timers (run_task ?f ?s2) = []"
        using restore_result(3) [OF present] by simp
      have "advance T ?s1 = advance T (run_task ?f ?s2)"
        using q that by (rule advance_fire)
      also have "\<dots> = (run_task ?f ?s2)\<lparr>clock := max (clock (run_task ?f ?s2)) T\<rparr>"
        using none by (rule advance_idle)
      finally show ?thesis
        using restore_result(1,2) [OF present] none
        by (simp del: run_task.simps)
    qed
    from early late show ?thesis by blast
  qed
  from first(1-3) later timed show ?thesis by blast
qed

lemma login_button:
  "children_of login_page 14 = Some [Text ''Sign in'']"
  "text_content login_page 14 = ''Sign in''"
  "timers login_page = []" "clock login_page = 0"
  "query_first_in login_page 11 (ByTagAttrIs ''button'' ''type'' ''submit'') = Some 14"
  by (simp_all add: text_content_def page_eval)

theorem showLoading_then_restore_witness:
  "children_of login_page 14 \<noteq> None \<and>
   form_submit 11 login_page = showLoading 14 login_page \<and>
   text_content login_page 14 = ''Sign in'' \<and>
   text_content (showLoading 14 login_page) 14 = ''Loading...'' \<and>
   disabled (elements (showLoading 14 login_page) 14) \<and>
   text_content (advance 1999 (showLoading 14 login_page)) 14 = ''Loading...'' \<and>
   disabled (elements (advance 1999 (showLoading 14 login_page)) 14) \<and>
   text_content (advance 2000 (showLoading 14 login_page)) 14 = ''Sign in'' \<and>
   \<not> disabled (elements (advance 2000 (showLoading 14 login_page)) 14)"
proof -
  have present: "children_of login_page 14 \<noteq> None"
    by (simp add: login_button)
  have "form_submit 11 login_page = showLoading 14 login_page"
    by (simp add: form_submit_def login_button)
  with showLoading_then_restore [OF present] present show ?thesis
    by (simp add: login_button)
qed


subsection \<open>The alerts\<close>

lemma enqueue_last: "\<forall>y \<in> set q. fst y \<le> fst x \<Longrightarrow> enqueue x q = q @ [x]"
  by (induction q) auto

lemma load_queue:
  "fold (\<lambda>a. set_timeout (FadeAlert a) 5000) as s =
   s\<lparr>timers := fold (\<lambda>a. enqueue (clock s + 5000, FadeAlert a)) as (timers s)\<rparr>"
  by (induction as arbitrary: s) (simp_all add: set_timeout_def)

lemma fold_enqueue_same_due:
  "\<forall>y \<in> set q. fst y \<le> d \<Longrightarrow>
   fold (\<lambda>a. enqueue (d, f a)) as q = q @ map (\<lambda>a. (d, f a)) as"
proof (induction as arbitrary: q)
  case Nil
  then show ?case by simp
next
  case (Cons a as)
  from Cons.prems have "enqueue (d, f a) q = q @ [(d, f a)]"
    by (simp add: enqueue_last)
  moreover from Cons.prems have "\<forall>y \<in> set (q @ [(d, f a)]). fst y \<le> d"
    by simp
  ultimately show ?case
    using Cons.IH [of "q @ [(d, f a)]"] by simp
qed

lemma loaded:
  "timers s = [] \<Longrightarrow>
   on_dom_content_loaded s =
   s\<lparr>timers := map (\<lambda>a. (clock s + 5000, FadeAlert a)) (query_all s (ByClass ''alert''))\<rparr>"
  by (simp add: on_dom_content_loaded_def load_queue fold_enqueue_same_due)

lemma fold_fade:
  "fold (\<lambda>a. set_opacity a c) as s =
   s\<lparr>elements := fold (\<lambda>a e. e(a := (e a)\<lparr>opacity := c\<rparr>)) as (elements s)\<rparr>"
  by (induction as arbitrary: s) (simp_all add: set_opacity_def)

lemma fold_fade_opacity:
  "opacity (fold (\<lambda>a e. e(a := (e a)\<lparr>opacity := c\<rparr>)) as e x)
   = (if x \<in> set as then c else opacity (e x))"
  by (induction as arbitrary: e) auto

lemma remove_node_frame [simp]:
  "remove_node a (s\<lparr>clock := c\<rparr>) = (remove_node a s)\<lparr>clock := c\<rparr>"
  "remove_node a (s\<lparr>timers := q\<rparr>) = (remove_node a s)\<lparr>timers := q\<rparr>"
  "remove_node a (s\<lparr>fired := l\<rparr>) = (remove_node a s)\<lparr>fired := l\<rparr>"
  "remove_node a (s\<lparr>elements := e\<rparr>) = (remove_node a s)\<lparr>elements := e\<rparr>"
  "elements (remove_node a s) = elements s"
  "timers (remove_node a s) = timers s"
  "clock (remove_node a s) = clock s"
  "fired (remove_node a s) = fired s"
  by (simp_all add: remove_node_def split: option.splits)

lemma fold_remove_frame [simp]:
  "fold remove_node bs (s\<lparr>clock := c\<rparr>) = (fold remove_node bs s)\<lparr>clock := c\<rparr>"
  "fold remove_node bs (s\<lparr>timers := q\<rparr>) = (fold remove_node bs s)\<lparr>timers := q\<rparr>"
  "fold remove_node bs (s\<lparr>fired := l\<rparr>) = (fold remove_node bs s)\<lparr>fired := l\<rparr>"
  "fold remove_node bs (s\<lparr>elements := e\<rparr>) = (fold remove_node bs s)\<lparr>elements := e\<rparr>"
  "elements (fold remove_node bs s) = elements s"
  "timers (fold remove_node bs s) = timers s"
  "clock (fold remove_node bs s) = clock s"
  "fired (fold remove_node bs s) = fired s"
  by (induction bs arbitrary: s) simp_all

text \<open>The three stretches of the timer loop: removals only, fades then removals, fades only.\<close>

lemma run_removals:
  assumes "timers s = map (\<lambda>a. (d2, RemoveAlert a)) bs" and "clock s \<le> T" and "d2 \<le> T"
  shows "advance T s =
    (fold remove_node bs s)\<lparr>clock := T, timers := [], fired := fired s @ map RemoveAlert bs\<rparr>"
  using assms
proof (induction bs arbitrary: s)
  case Nil
  then have "advance T s = s\<lparr>clock := T\<rparr>"
    by (simp add: advance_idle max_absorb2)
  also from Nil have "\<dots> = s\<lparr>clock := T, timers := [], fired := fired s\<rparr>"
    by simp
  finally show ?case by simp
next
  case (Cons b bs)
  let ?s1 = "(remove_node b s)\<lparr>clock := max (clock s) d2,
      timers := map (\<lambda>a. (d2, RemoveAlert a)) bs, fired := fired s @ [RemoveAlert b]\<rparr>"
  from Cons.prems have "advance T s = advance T ?s1"
    by (subst advance_fire [of s d2 "RemoveAlert b" "map (\<lambda>a. (d2, RemoveAlert a)) bs" T])
      simp_all
  also from Cons.prems have "\<dots> =
      (fold remove_node bs ?s1)\<lparr>clock := T, timers := [],
        fired := fired ?s1 @ map RemoveAlert bs\<rparr>"
    by (intro Cons.IH) simp_all
  finally show ?case
    by simp
qed

lemma fade_step:
  assumes "timers s = (d1, FadeAlert a) # map (\<lambda>a. (d1, FadeAlert a)) as
      @ map (\<lambda>a. (d1 + 300, RemoveAlert a)) bs"
    and "clock s \<le> d1" and "d1 \<le> T"
  shows "advance T s = advance T ((set_opacity a ''0'' s)\<lparr>clock := d1,
      timers := map (\<lambda>a. (d1, FadeAlert a)) as @ map (\<lambda>a. (d1 + 300, RemoveAlert a)) (bs @ [a]),
      fired := fired s @ [FadeAlert a]\<rparr>)"
proof -
  let ?rest = "map (\<lambda>a. (d1, FadeAlert a)) as @ map (\<lambda>a. (d1 + 300, RemoveAlert a)) bs"
  have "enqueue (d1 + 300, RemoveAlert a) ?rest = ?rest @ [(d1 + 300, RemoveAlert a)]"
    by (rule enqueue_last) auto
  with assms(2) have "run_task (FadeAlert a)
      (s\<lparr>clock := max (clock s) d1, timers := ?rest, fired := fired s @ [FadeAlert a]\<rparr>)
    = (set_opacity a ''0'' s)\<lparr>clock := d1,
      timers := map (\<lambda>a. (d1, FadeAlert a)) as @ map (\<lambda>a. (d1 + 300, RemoveAlert a)) (bs @ [a]),
      fired := fired s @ [FadeAlert a]\<rparr>"
    by (simp add: set_timeout_def set_opacity_def max_absorb2)
  with advance_fire [OF assms(1,3)] show ?thesis by simp
qed

lemma run_fades_and_removals:
  assumes "timers s = map (\<lambda>a. (d1, FadeAlert a)) as @ map (\<lambda>a. (d1 + 300, RemoveAlert a)) bs"
    and "clock s \<le> d1" and "d1 + 300 \<le> T"
  shows "advance T s =
    (fold remove_node (bs @ as) (fold (\<lambda>a. set_opacity a ''0'') as s))
      \<lparr>clock := T, timers := [],
       fired := fired s @ map FadeAlert as @ map RemoveAlert (bs @ as)\<rparr>"
  using assms
proof (induction as arbitrary: s bs)
  case Nil
  then show ?case
    using run_removals [of s "d1 + 300" bs T] by simp
next
  case (Cons a as)
  let ?s1 = "(set_opacity a ''0'' s)\<lparr>clock := d1,
      timers := map (\<lambda>a. (d1, FadeAlert a)) as @ map (\<lambda>a. (d1 + 300, RemoveAlert a)) (bs @ [a]),
      fired := fired s @ [FadeAlert a]\<rparr>"
  from Cons.prems have "advance T s = advance T ?s1"
    by (intro fade_step) simp_all
  also from Cons.prems have "\<dots> =
      (fold remove_node ((bs @ [a]) @ as) (fold (\<lambda>a. set_opacity a ''0'') as ?s1))
        \<lparr>clock := T, timers := [],
         fired := fired ?s1 @ map FadeAlert as @ map RemoveAlert ((bs @ [a]) @ as)\<rparr>"
    by (intro Cons.IH) simp_all
  finally show ?case
    by (simp add: fold_fade)
qed

lemma run_fades:
  assumes "timers s = map (\<lambda>a. (d1, FadeAlert a)) as @ map (\<lambda>a. (d1 + 300, RemoveAlert a)) bs"
    and "clock s \<le> d1" and "d1 \<le> T" and "T < d1 + 300"
  shows "advance T s =
    (fold (\<lambda>a. set_opacity a ''0'') as s)
      \<lparr>clock := T, timers := map (\<lambda>a. (d1 + 300, RemoveAlert a)) (bs @ as),
       fired := fired s @ map FadeAlert as\<rparr>"
  using assms
proof (induction as arbitrary: s bs)
  case Nil
  have "advance T s = s\<lparr>clock := max (clock s) T\<rparr>"
  proof (cases bs)
    case Nil
    with Cons Nil.prems show ?thesis by (simp add: advance_idle)
  next
    case (Cons b bs')
    with Nil.prems show ?thesis
      by (intro advance_wait [of s "d1 + 300" "RemoveAlert b"
            "map (\<lambda>a. (d1 + 300, RemoveAlert a)) bs'"]) simp_all
  qed
  also from Nil.prems have "\<dots> = s\<lparr>clock := T, timers := timers s, fired := fired s\<rparr>"
    by (simp add: max_absorb2)
  finally show ?case using Nil.prems by simp
next
  case (Cons a as)
  let ?s1 = "(set_opacity a ''0'' s)\<lparr>clock := d1,
      timers := map (\<lambda>a. (d1, FadeAlert a)) as @ map (\<lambda>a. (d1 + 300, RemoveAlert a)) (bs @ [a]),
      fired := fired s @ [FadeAlert a]\<rparr>"
  from Cons.prems have "advance T s = advance T ?s1"
    by (intro fade_step) simp_all
  also from Cons.prems have "\<dots> =
      (fold (\<lambda>a. set_opacity a ''0'') as ?s1)
        \<lparr>clock := T, timers := map (\<lambda>a. (d1 + 300, RemoveAlert a)) ((bs @ [a]) @ as),
         fired := fired ?s1 @ map FadeAlert as\<rparr>"
    by (intro Cons.IH) simp_all
  finally show ?case
    by (simp add: fold_fade)
qed

lemma run_nothing:
  assumes "timers s = map (\<lambda>a. (d1, FadeAlert a)) as" and "T < d1"
  shows "advance T s = s\<lparr>clock := max (clock s) T\<rparr>"
proof (cases as)
  case Nil
  with assms show ?thesis by (simp add: advance_idle)
next
  case (Cons a as')
  with assms show ?thesis
    by (intro advance_wait [of s d1 "FadeAlert a" "map (\<lambda>a. (d1, FadeAlert a)) as'"]) simp_all
qed

subsection \<open>What removal does to the tree\<close>

lemma elems_cut: "r \<notin> set (elems (cut r f))" "set (elems (cut r f)) \<subseteq> set (elems f)"
  by (induction r f rule: cut.induct) auto

lemma remove_node_gone: "a \<notin> set (elems (document (remove_node a s)))"
proof (cases "find_node a (document s)")
  case None
  have "find_node r f = None \<Longrightarrow> r \<notin> set (elems f)" for r f
    by (induction r f rule: find_node.induct) (auto split: if_splits option.splits)
  with None show ?thesis by (simp add: remove_node_def split: option.splits)
next
  case (Some k)
  then show ?thesis by (simp add: remove_node_def elems_cut)
qed

lemma remove_node_stays_gone:
  "a \<notin> set (elems (document s)) \<Longrightarrow> a \<notin> set (elems (document (remove_node b s)))"
  using elems_cut(2) [of b "document s"]
  by (auto simp: remove_node_def split: option.splits)

lemma fold_remove_gone:
  "a \<in> set bs \<or> a \<notin> set (elems (document s)) \<Longrightarrow>
   a \<notin> set (elems (document (fold remove_node bs s)))"
proof (induction bs arbitrary: s)
  case Nil
  then show ?case by simp
next
  case (Cons b bs)
  have "a \<in> set bs \<or> a \<notin> set (elems (document (remove_node b s)))"
  proof (cases "a = b")
    case True
    then show ?thesis by (simp add: remove_node_gone)
  next
    case False
    with Cons.prems have "a \<in> set bs \<or> a \<notin> set (elems (document s))"
      by simp
    then show ?thesis
      using remove_node_stays_gone [of a s b] by blast
  qed
  then show ?case using Cons.IH [of "remove_node b s"] by simp
qed

lemma count_once: "distinct xs \<Longrightarrow> x \<in> set xs \<Longrightarrow> count_list xs x = 1"
  by (induction xs) auto

lemma fold_fade_tree [simp]:
  "document (fold (\<lambda>a. set_opacity a c) as s) = document s"
  "fired (fold (\<lambda>a. set_opacity a c) as s) = fired s"
  by (simp_all add: fold_fade)

text \<open>
  C6. Time is the timer clock; the handler runs at \<open>clock s\<close> with no other timeout
  pending. For every element that has the class \<open>alert\<close> when the handler runs: it is in
  the document at every time before 5300 ms, so it is not removed before 5000 ms; it is
  out of the document at every time from 5300 ms on; its opacity is untouched before
  5000 ms and is \<open>0\<close> from 5000 ms on. Its removal callback has run not at all before
  5300 ms and exactly once from then on, when no timeout is left: nothing triggers it again.
\<close>

theorem alerts_removed_on_time:
  assumes "timers s = []" and "distinct (elems (document s))"
    and "alert \<in> set (query_all s (ByClass ''alert''))"
  shows "(\<forall>T. T < clock s + 5300 \<longrightarrow>
       alert \<in> set (elems (document (advance T (on_dom_content_loaded s)))) \<and>
       count_list (fired (advance T (on_dom_content_loaded s))) (RemoveAlert alert)
         = count_list (fired s) (RemoveAlert alert)) \<and>
    (\<forall>T. clock s + 5300 \<le> T \<longrightarrow>
       alert \<notin> set (elems (document (advance T (on_dom_content_loaded s)))) \<and>
       count_list (fired (advance T (on_dom_content_loaded s))) (RemoveAlert alert)
         = count_list (fired s) (RemoveAlert alert) + 1 \<and>
       timers (advance T (on_dom_content_loaded s)) = []) \<and>
    (\<forall>T. T < clock s + 5000 \<longrightarrow>
       opacity (elements (advance T (on_dom_content_loaded s)) alert)
         = opacity (elements s alert)) \<and>
    (\<forall>T. clock s + 5000 \<le> T \<longrightarrow>
       opacity (elements (advance T (on_dom_content_loaded s)) alert) = ''0'')"
proof -
  let ?as = "query_all s (ByClass ''alert'')"
  let ?s1 = "on_dom_content_loaded s"
  let ?d1 = "clock s + 5000"
  from assms(1) have s1: "?s1 = s\<lparr>timers := map (\<lambda>a. (?d1, FadeAlert a)) ?as\<rparr>"
    by (rule loaded)
  then have q: "timers ?s1 = map (\<lambda>a. (?d1, FadeAlert a)) ?as
      @ map (\<lambda>a. (?d1 + 300, RemoveAlert a)) []"
    and c: "clock ?s1 \<le> ?d1"
    by simp_all
  from assms(2) have "distinct ?as"
    by (simp add: query_all_def)
  with assms(3) have once: "count_list ?as alert = 1"
    by (simp add: count_once)
  have removes: "count_list (map RemoveAlert ?as) (RemoveAlert alert) = 1"
    using once by (simp add: count_list_map_conv inj_def)
  have fades: "count_list (map FadeAlert ?as) (RemoveAlert alert) = 0"
    by (rule count_notin) auto
  from assms(3) have here: "alert \<in> set (elems (document s))"
    by (simp add: query_all_def)
  have early: "advance T ?s1 = ?s1\<lparr>clock := max (clock ?s1) T\<rparr>" if "T < ?d1" for T
    using run_nothing [of ?s1 ?d1 ?as T] s1 that by simp
  have mid: "advance T ?s1 =
      (fold (\<lambda>a. set_opacity a ''0'') ?as ?s1)
        \<lparr>clock := T, timers := map (\<lambda>a. (?d1 + 300, RemoveAlert a)) ([] @ ?as),
         fired := fired ?s1 @ map FadeAlert ?as\<rparr>"
    if "?d1 \<le> T" "T < ?d1 + 300" for T
    using q c that by (rule run_fades)
  have late: "advance T ?s1 =
      (fold remove_node ([] @ ?as) (fold (\<lambda>a. set_opacity a ''0'') ?as ?s1))
        \<lparr>clock := T, timers := [],
         fired := fired ?s1 @ map FadeAlert ?as @ map RemoveAlert ([] @ ?as)\<rparr>"
    if "?d1 + 300 \<le> T" for T
    using q c that by (rule run_fades_and_removals)
  have before: "alert \<in> set (elems (document (advance T ?s1))) \<and>
      count_list (fired (advance T ?s1)) (RemoveAlert alert)
        = count_list (fired s) (RemoveAlert alert)"
    if "T < clock s + 5300" for T
  proof (cases "T < ?d1")
    case True
    from early [OF True] here show ?thesis by (simp add: s1)
  next
    case False
    with that have "advance T ?s1 =
      (fold (\<lambda>a. set_opacity a ''0'') ?as ?s1)
        \<lparr>clock := T, timers := map (\<lambda>a. (?d1 + 300, RemoveAlert a)) ([] @ ?as),
         fired := fired ?s1 @ map FadeAlert ?as\<rparr>"
      by (intro mid) simp_all
    with here fades show ?thesis by (simp add: s1)
  qed
  have after: "alert \<notin> set (elems (document (advance T ?s1))) \<and>
      count_list (fired (advance T ?s1)) (RemoveAlert alert)
        = count_list (fired s) (RemoveAlert alert) + 1 \<and>
      timers (advance T ?s1) = []"
    if "clock s + 5300 \<le> T" for T
  proof -
    from that have "advance T ?s1 =
      (fold remove_node ([] @ ?as) (fold (\<lambda>a. set_opacity a ''0'') ?as ?s1))
        \<lparr>clock := T, timers := [],
         fired := fired ?s1 @ map FadeAlert ?as @ map RemoveAlert ([] @ ?as)\<rparr>"
      by (intro late) simp
    moreover from assms(3) have
      "alert \<notin> set (elems (document (fold remove_node ?as (fold (\<lambda>a. set_opacity a ''0'') ?as ?s1))))"
      by (intro fold_remove_gone) simp
    ultimately show ?thesis using fades removes by (simp add: s1)
  qed
  have clear: "opacity (elements (advance T ?s1) alert) = opacity (elements s alert)"
    if "T < ?d1" for T
    using early [OF that] by (simp add: s1)
  have faded: "opacity (elements (advance T ?s1) alert) = ''0''" if "?d1 \<le> T" for T
  proof (cases "T < ?d1 + 300")
    case True
    from mid [OF that True] assms(3) show ?thesis
      by (simp add: fold_fade fold_fade_opacity)
  next
    case False
    then have "?d1 + 300 \<le> T" by simp
    from late [OF this] assms(3) show ?thesis
      by (simp add: fold_fade fold_fade_opacity)
  qed
  from before after clear faded show ?thesis by blast
qed

lemma login_alerts:
  "query_all login_page (ByClass ''alert'') = [16]"
  "elems (document login_page) = [10, 11, 12, 13, 14, 15, 16, 17]"
  "timers login_page = []" "clock login_page = 0" "fired login_page = []"
  by (simp_all add: page_eval)

theorem alerts_removed_on_time_witness:
  "timers login_page = [] \<and> distinct (elems (document login_page)) \<and>
   16 \<in> set (query_all login_page (ByClass ''alert'')) \<and>
   16 \<in> set (elems (document (advance 4999 (on_dom_content_loaded login_page)))) \<and>
   16 \<in> set (elems (document (advance 5299 (on_dom_content_loaded login_page)))) \<and>
   opacity (elements (advance 5000 (on_dom_content_loaded login_page)) 16) = ''0'' \<and>
   16 \<notin> set (elems (document (advance 5300 (on_dom_content_loaded login_page)))) \<and>
   count_list (fired (advance 5300 (on_dom_content_loaded login_page))) (RemoveAlert 16) = 1 \<and>
   count_list (fired (advance 9999 (on_dom_content_loaded login_page))) (RemoveAlert 16) = 1 \<and>
   timers (advance 5300 (on_dom_content_loaded login_page)) = []"
proof -
  have a: "timers login_page = []" "distinct (elems (document login_page))"
    "16 \<in> set (query_all login_page (ByClass ''alert''))"
    by (simp_all add: login_alerts)
  from alerts_removed_on_time [OF a] a show ?thesis
    by (simp add: login_alerts)
qed


end
